theory Spec2Isabelle
  imports Complex_Main
begin

section \<open>Tokens and errors (parser.ts)\<close>

text \<open>
  \<^verbatim>\<open>type Token = { type: 'number' | 'op' | 'fn' | 'paren' | 'const'; value: string }\<close>.
  A JavaScript string is taken as a list of characters with code units below 256;
  the character classes of the source's regular expressions are written out.
\<close>

datatype ttype = TNumber | TOp | TFn | TParen | TConst

record token =
  type :: ttype
  val :: string

definition mk :: "ttype \<Rightarrow> string \<Rightarrow> token" where
  "mk ty v = \<lparr>type = ty, val = v\<rparr>"

text \<open>
  Every \<^verbatim>\<open>throw new Error(msg)\<close> of the source is one constructor; \<open>message\<close>
  gives the \<^verbatim>\<open>e.message\<close> that \<^verbatim>\<open>Calculator.evaluate\<close> displays.
\<close>

datatype error =
    InvalidNumberFormat
  | UnknownIdentifier string
  | InvalidCharacter char
  | MismatchedParentheses
  | InvalidExpression
  | DivisionByZero
  | UnknownOperator
  | InvalidFunctionCall
  | LogDomainError
  | LnDomainError
  | SqrtDomainError
  | UnknownFunction

fun message :: "error \<Rightarrow> string" where
  "message InvalidNumberFormat = ''Invalid number format''"
| "message (UnknownIdentifier ident) = ''Unknown identifier: '' @ ident"
| "message (InvalidCharacter ch) = ''Invalid character: '' @ [ch]"
| "message MismatchedParentheses = ''Mismatched parentheses''"
| "message InvalidExpression = ''Invalid expression''"
| "message DivisionByZero = ''Division by zero''"
| "message UnknownOperator = ''Unknown operator''"
| "message InvalidFunctionCall = ''Invalid function call''"
| "message LogDomainError = ''Log domain error''"
| "message LnDomainError = ''Ln domain error''"
| "message SqrtDomainError = ''Sqrt domain error''"
| "message UnknownFunction = ''Unknown function''"

subsection \<open>Character classes\<close>

definition is_digit :: "char \<Rightarrow> bool" where
  "is_digit c = (c \<in> set ''0123456789'')"

definition is_letter :: "char \<Rightarrow> bool" where
  "is_letter c = (c \<in> set ''abcdefghijklmnopqrstuvwxyzABCDEFGHIJKLMNOPQRSTUVWXYZ'')"

text \<open>\<^verbatim>\<open>/[0-9.]/\<close>, \<^verbatim>\<open>/[a-zA-Z0-9]/\<close>, \<^verbatim>\<open>/[+\-*/^]/\<close>.\<close>

definition is_numch :: "char \<Rightarrow> bool" where
  "is_numch c = (is_digit c \<or> c = CHR ''.'')"

definition is_alnum :: "char \<Rightarrow> bool" where
  "is_alnum c = (is_letter c \<or> is_digit c)"

definition is_opch :: "char \<Rightarrow> bool" where
  "is_opch c = (c \<in> set ''+-*/^'')"

text \<open>
  \<^verbatim>\<open>\s\<close> of a JavaScript regular expression, among the code units below 256: tab, line
  feed, vertical tab, form feed, carriage return, space and the no-break space.
\<close>

definition is_space :: "char \<Rightarrow> bool" where
  "is_space c = (c \<in> set [CHR 0x09, CHR 0x0A, CHR 0x0B, CHR 0x0C, CHR 0x0D, CHR 0x20, CHR 0xA0])"

subsection \<open>The fixed tables\<close>

text \<open>\<^verbatim>\<open>const FUNCTIONS = new Set(['sin','cos','tan','log','ln','sqrt'])\<close>; \<^verbatim>\<open>FUNCTIONS.has\<close>.\<close>

definition FUNCTIONS_has :: "string \<Rightarrow> bool" where
  "FUNCTIONS_has ident = (ident \<in> set [''sin'', ''cos'', ''tan'', ''log'', ''ln'', ''sqrt''])"

text \<open>
  \<^verbatim>\<open>CONSTANTS\<close> and \<^verbatim>\<open>PRECEDENCE\<close> are object literals, so besides their own keys they
  inherit the properties of \<^verbatim>\<open>Object.prototype\<close>: the operator \<^verbatim>\<open>in\<close> and a property
  read \<^verbatim>\<open>obj[key]\<close> both follow the prototype chain.
\<close>

definition Object_prototype_keys :: "string list" where
  "Object_prototype_keys =
     [''constructor'', ''hasOwnProperty'', ''isPrototypeOf'', ''propertyIsEnumerable'',
      ''toLocaleString'', ''toString'', ''valueOf'', ''__proto__'', ''__defineGetter__'',
      ''__defineSetter__'', ''__lookupGetter__'', ''__lookupSetter__'']"

text \<open>\<^verbatim>\<open>id in CONSTANTS\<close> with \<^verbatim>\<open>CONSTANTS = { pi: Math.PI, e: Math.E }\<close>.\<close>

definition in_CONSTANTS :: "string \<Rightarrow> bool" where
  "in_CONSTANTS ident = (ident \<in> set [''pi'', ''e''] \<or> ident \<in> set Object_prototype_keys)"

section \<open>The tokenizer\<close>

text \<open>
  \<^verbatim>\<open>expr.replace(/\s+/g, '')\<close> removes every whitespace character. The \<^verbatim>\<open>while\<close> loop
  over the index \<open>i\<close> becomes a recursion over the text from \<open>i\<close> on; \<open>tokens\<close> is the
  array built so far. \<^verbatim>\<open>num.split('.').length > 2\<close> holds when \<open>num\<close> has two dots or more.
\<close>

definition cleaned :: "string \<Rightarrow> string" where
  "cleaned expr = filter (\<lambda>c. \<not> is_space c) expr"

function tokenize_loop :: "token list \<Rightarrow> string \<Rightarrow> error + token list" where
  "tokenize_loop tokens [] = Inr tokens"
| "tokenize_loop tokens (ch # rest) =
     (if is_numch ch then
        (let num = ch # takeWhile is_numch rest in
         if length (filter (\<lambda>c. c = CHR ''.'') num) + 1 > 2 then Inl InvalidNumberFormat
         else tokenize_loop (tokens @ [mk TNumber num]) (dropWhile is_numch rest))
      else if is_letter ch then
        (let ident = ch # takeWhile is_alnum rest in
         if FUNCTIONS_has ident then
           tokenize_loop (tokens @ [mk TFn ident]) (dropWhile is_alnum rest)
         else if in_CONSTANTS ident then
           tokenize_loop (tokens @ [mk TConst ident]) (dropWhile is_alnum rest)
         else Inl (UnknownIdentifier ident))
      else if ch = CHR ''('' \<or> ch = CHR '')'' then tokenize_loop (tokens @ [mk TParen [ch]]) rest
      else if is_opch ch then tokenize_loop (tokens @ [mk TOp [ch]]) rest
      else Inl (InvalidCharacter ch))"
  by pat_completeness auto
termination
  by (relation "measure (\<lambda>(tokens, s). length s)")
     (auto simp: length_dropWhile_le less_Suc_eq_le)

definition tokenize :: "string \<Rightarrow> error + token list" where
  "tokenize expr = tokenize_loop [] (cleaned expr)"

section \<open>The shunting-yard transformation\<close>

text \<open>
  \<^verbatim>\<open>PRECEDENCE[key]\<close> is a number for the five operators, an inherited object for a key
  of \<^verbatim>\<open>Object.prototype\<close> and \<^verbatim>\<open>undefined\<close> otherwise.
\<close>

datatype prec = PNum nat | PInherited string | PUndefined

definition PRECEDENCE :: "string \<Rightarrow> prec" where
  "PRECEDENCE key =
     (if key = ''+'' \<or> key = ''-'' then PNum 1
      else if key = ''*'' \<or> key = ''/'' then PNum 2
      else if key = ''^'' then PNum 3
      else if key \<in> set Object_prototype_keys then PInherited key
      else PUndefined)"

definition RIGHT_ASSOC_has :: "string \<Rightarrow> bool" where
  "RIGHT_ASSOC_has v = (v = ''^'')"

text \<open>
  The relational operators on two table entries. Two numbers compare as numbers. An
  inherited object is converted to a string, which is no numeric literal, and
  \<^verbatim>\<open>undefined\<close> to NaN, so a comparison of either with a number is false. Two inherited
  objects compare as the strings they convert to; these are host-defined, and \<open>str_lt\<close>
  stands for the host's answer to "the string of \<open>x\<close> is less than that of \<open>y\<close>".
  \<^verbatim>\<open>x <= y\<close> is evaluated as "not \<open>y < x\<close>" when both sides are comparable.
\<close>

fun prec_lt :: "(string \<Rightarrow> string \<Rightarrow> bool) \<Rightarrow> prec \<Rightarrow> prec \<Rightarrow> bool" where
  "prec_lt str_lt (PNum a) (PNum b) = (a < b)"
| "prec_lt str_lt (PInherited x) (PInherited y) = str_lt x y"
| "prec_lt str_lt _ _ = False"

fun prec_le :: "(string \<Rightarrow> string \<Rightarrow> bool) \<Rightarrow> prec \<Rightarrow> prec \<Rightarrow> bool" where
  "prec_le str_lt (PNum a) (PNum b) = (a \<le> b)"
| "prec_le str_lt (PInherited x) (PInherited y) = (\<not> str_lt y x)"
| "prec_le str_lt _ _ = False"

text \<open>
  The operator stack \<open>ops\<close> is a list with its top first: \<^verbatim>\<open>ops.push(t)\<close> is \<open>t # ops\<close>.
  \<open>output\<close> grows at its end.

  The inner \<^verbatim>\<open>while (ops.length > 0)\<close> of an operator token \<open>t\<close> (lines 69--80).
\<close>

fun pop_for_op :: "(string \<Rightarrow> string \<Rightarrow> bool) \<Rightarrow> token \<Rightarrow> token list \<Rightarrow> token list
    \<Rightarrow> token list \<times> token list" where
  "pop_for_op str_lt t output [] = (output, [])"
| "pop_for_op str_lt t output (tp # ops) =
     (if type tp = TFn then pop_for_op str_lt t (output @ [tp]) ops
      else if type tp = TOp \<and>
              (let p1 = PRECEDENCE (val tp); p2 = PRECEDENCE (val t) in
               (RIGHT_ASSOC_has (val t) \<and> prec_lt str_lt p2 p1) \<or>
               (\<not> RIGHT_ASSOC_has (val t) \<and> prec_le str_lt p2 p1))
      then pop_for_op str_lt t (output @ [tp]) ops
      else (output, tp # ops))"

text \<open>
  The inner loop of a closing parenthesis (lines 85--90): \<open>None\<close> when the stack
  empties with \<open>found\<close> still false.
\<close>

fun pop_to_paren :: "token list \<Rightarrow> token list \<Rightarrow> (token list \<times> token list) option" where
  "pop_to_paren output [] = None"
| "pop_to_paren output (tp # ops) =
     (if type tp = TParen \<and> val tp = ''('' then Some (output, ops)
      else pop_to_paren (output @ [tp]) ops)"

text \<open>The \<^verbatim>\<open>for\<close> loop over the tokens (lines 62--95).\<close>

fun toRPN_loop :: "(string \<Rightarrow> string \<Rightarrow> bool) \<Rightarrow> token list \<Rightarrow> token list \<Rightarrow> token list
    \<Rightarrow> error + (token list \<times> token list)" where
  "toRPN_loop str_lt output ops [] = Inr (output, ops)"
| "toRPN_loop str_lt output ops (t # ts) =
     (if type t = TNumber \<or> type t = TConst then toRPN_loop str_lt (output @ [t]) ops ts
      else if type t = TFn then toRPN_loop str_lt output (t # ops) ts
      else if type t = TOp then
        (case pop_for_op str_lt t output ops of
           (output', ops') \<Rightarrow> toRPN_loop str_lt output' (t # ops') ts)
      else if val t = ''('' then toRPN_loop str_lt output (t # ops) ts
      else
        (case pop_to_paren output ops of
           None \<Rightarrow> Inl MismatchedParentheses
         | Some (output', ops') \<Rightarrow>
             (case ops' of
                tp # ops'' \<Rightarrow>
                  if type tp = TFn then toRPN_loop str_lt (output' @ [tp]) ops'' ts
                  else toRPN_loop str_lt output' ops' ts
              | [] \<Rightarrow> toRPN_loop str_lt output' ops' ts)))"

text \<open>The final \<^verbatim>\<open>while (ops.length > 0)\<close> (lines 97--101).\<close>

fun drain :: "token list \<Rightarrow> token list \<Rightarrow> error + token list" where
  "drain output [] = Inr output"
| "drain output (tp # ops) =
     (if type tp = TParen then Inl MismatchedParentheses else drain (output @ [tp]) ops)"

definition toRPN :: "(string \<Rightarrow> string \<Rightarrow> bool) \<Rightarrow> token list \<Rightarrow> error + token list" where
  "toRPN str_lt tokens =
     (case toRPN_loop str_lt [] [] tokens of
        Inl e \<Rightarrow> Inl e
      | Inr (output, ops) \<Rightarrow> drain output ops)"

section \<open>Numbers\<close>

text \<open>
  A JavaScript number is an IEEE 754 binary64 value: a finite value (a rational; \<open>Fin 0\<close>
  is the positive zero), the negative zero, an infinity or NaN.
\<close>

datatype jsnum = Fin rat | NegZero | PosInf | NegInf | NaN

definition ipow :: "nat \<Rightarrow> int \<Rightarrow> rat" where
  "ipow b k = (if 0 \<le> k then of_nat b ^ nat k else 1 / of_nat b ^ nat (- k))"

text \<open>\<open>nlog b n\<close> is the largest \<open>k\<close> with \<open>b ^ k \<le> n\<close>, for \<open>n \<ge> 1\<close> and \<open>b \<ge> 2\<close>.\<close>

function nlog :: "nat \<Rightarrow> nat \<Rightarrow> nat" where
  "nlog b n = (if b < 2 \<or> n < b then 0 else Suc (nlog b (n div b)))"
  by pat_completeness auto
termination
  by (relation "measure (\<lambda>(b, n). n)") auto

text \<open>\<open>ilog b q\<close> is the integer \<open>k\<close> with \<open>b ^ k \<le> q < b ^ (k + 1)\<close>, for \<open>q > 0\<close>.\<close>

definition ilog :: "nat \<Rightarrow> rat \<Rightarrow> int" where
  "ilog b q =
     (if 1 \<le> q then int (nlog b (nat \<lfloor>q\<rfloor>))
      else (let m = nat \<lceil>1 / q\<rceil> in - int (if m \<le> 1 then 0 else Suc (nlog b (m - 1)))))"

text \<open>Rounding to the nearest integer, a tie to the even one.\<close>

definition rne :: "rat \<Rightarrow> int" where
  "rne q = (let f = \<lfloor>q\<rfloor>; r = q - of_int f in
            if r < 1 / 2 then f else if 1 / 2 < r then f + 1
            else if even f then f else f + 1)"

text \<open>
  Rounding a magnitude \<open>a \<ge> 0\<close> with sign \<open>s\<close> (true: negative) to binary64, to the
  nearest value and a tie to the even significand: 53 significant bits, the least
  exponent \<open>-1022\<close> (below it the spacing stays \<open>2 ^ -1074\<close>), and overflow to an infinity
  from \<open>2 ^ 1024\<close> on.
\<close>

definition rnd_signed :: "bool \<Rightarrow> rat \<Rightarrow> jsnum" where
  "rnd_signed s a =
     (if a = 0 then (if s then NegZero else Fin 0)
      else (let e = max (ilog 2 a) (- 1022);
                ulp = ipow 2 (e - 52);
                v = of_int (rne (a / ulp)) * ulp in
            if 2 ^ 1024 \<le> v then (if s then NegInf else PosInf)
            else if v = 0 then (if s then NegZero else Fin 0)
            else Fin (if s then - v else v)))"

definition rnd :: "rat \<Rightarrow> jsnum" where
  "rnd q = rnd_signed (q < 0) \<bar>q\<bar>"

fun negative :: "jsnum \<Rightarrow> bool" where
  "negative (Fin q) = (q < 0)"
| "negative NegZero = True"
| "negative NegInf = True"
| "negative _ = False"

fun is_inf :: "jsnum \<Rightarrow> bool" where
  "is_inf PosInf = True"
| "is_inf NegInf = True"
| "is_inf _ = False"

text \<open>The magnitude of a finite number.\<close>

fun mag :: "jsnum \<Rightarrow> rat" where
  "mag (Fin q) = \<bar>q\<bar>"
| "mag _ = 0"

definition is_zero :: "jsnum \<Rightarrow> bool" where
  "is_zero x = (x = Fin 0 \<or> x = NegZero)"

definition signed_inf :: "bool \<Rightarrow> jsnum" where
  "signed_inf s = (if s then NegInf else PosInf)"

definition signed_zero :: "bool \<Rightarrow> jsnum" where
  "signed_zero s = (if s then NegZero else Fin 0)"

fun neg :: "jsnum \<Rightarrow> jsnum" where
  "neg (Fin q) = (if q = 0 then NegZero else Fin (- q))"
| "neg NegZero = Fin 0"
| "neg PosInf = NegInf"
| "neg NegInf = PosInf"
| "neg NaN = NaN"

text \<open>The four arithmetic operators of IEEE 754: the exact result, rounded once.\<close>

fun num_add :: "jsnum \<Rightarrow> jsnum \<Rightarrow> jsnum" where
  "num_add NaN _ = NaN"
| "num_add _ NaN = NaN"
| "num_add PosInf NegInf = NaN"
| "num_add NegInf PosInf = NaN"
| "num_add PosInf _ = PosInf"
| "num_add _ PosInf = PosInf"
| "num_add NegInf _ = NegInf"
| "num_add _ NegInf = NegInf"
| "num_add NegZero y = y"
| "num_add x NegZero = x"
| "num_add (Fin p) (Fin q) = rnd (p + q)"

definition num_sub :: "jsnum \<Rightarrow> jsnum \<Rightarrow> jsnum" where
  "num_sub x y = num_add x (neg y)"

definition num_mul :: "jsnum \<Rightarrow> jsnum \<Rightarrow> jsnum" where
  "num_mul x y =
     (let s = (negative x \<noteq> negative y) in
      if x = NaN \<or> y = NaN then NaN
      else if is_inf x \<or> is_inf y then
        (if is_zero x \<or> is_zero y then NaN else signed_inf s)
      else rnd_signed s (mag x * mag y))"

definition num_div :: "jsnum \<Rightarrow> jsnum \<Rightarrow> jsnum" where
  "num_div x y =
     (let s = (negative x \<noteq> negative y) in
      if x = NaN \<or> y = NaN then NaN
      else if is_inf x then (if is_inf y then NaN else signed_inf s)
      else if is_inf y then signed_zero s
      else if is_zero y then (if is_zero x then NaN else signed_inf s)
      else rnd_signed s (mag x / mag y))"

subsection \<open>The host's library\<close>

text \<open>
  What the host's built-in functions return where the language standard leaves it to
  the implementation, or where this program does not depend on it, is a parameter of
  the model: the results of the transcendental functions and of \<^verbatim>\<open>Math.sqrt\<close>, of
  \<^verbatim>\<open>Math.pow\<close> at two finite nonzero arguments, of \<^verbatim>\<open>Number(text)\<close> on a text that is not
  made of digits and dots, and the order of the strings that two inherited objects
  convert to.
\<close>

record host =
  str_lt :: "string \<Rightarrow> string \<Rightarrow> bool"
  Number_other :: "string \<Rightarrow> jsnum"
  Math_sin :: "jsnum \<Rightarrow> jsnum"
  Math_cos :: "jsnum \<Rightarrow> jsnum"
  Math_tan :: "jsnum \<Rightarrow> jsnum"
  Math_log10 :: "jsnum \<Rightarrow> jsnum"
  Math_log :: "jsnum \<Rightarrow> jsnum"
  Math_sqrt :: "jsnum \<Rightarrow> jsnum"
  pow_approx :: "rat \<Rightarrow> rat \<Rightarrow> jsnum"

fun positive :: "jsnum \<Rightarrow> bool" where
  "positive (Fin q) = (0 < q)"
| "positive PosInf = True"
| "positive _ = False"

fun odd_integer :: "jsnum \<Rightarrow> bool" where
  "odd_integer (Fin q) = (q = of_int \<lfloor>q\<rfloor> \<and> odd \<lfloor>q\<rfloor>)"
| "odd_integer _ = False"

text \<open>
  \<^verbatim>\<open>Math.pow(base, exponent)\<close>, case by case as the standard lists them. For two finite
  nonzero arguments the result is NaN when the base is negative and the exponent is
  no integer; otherwise the standard asks for an approximation of the power, which
  is the host's to choose.
\<close>

definition Math_pow :: "host \<Rightarrow> jsnum \<Rightarrow> jsnum \<Rightarrow> jsnum" where
  "Math_pow H base ex =
     (if ex = NaN then NaN
      else if is_zero ex then Fin 1
      else if base = NaN then NaN
      else if base = PosInf then (if positive ex then PosInf else Fin 0)
      else if base = NegInf then
        (if positive ex then (if odd_integer ex then NegInf else PosInf)
         else (if odd_integer ex then NegZero else Fin 0))
      else if base = Fin 0 then (if positive ex then Fin 0 else PosInf)
      else if base = NegZero then
        (if positive ex then (if odd_integer ex then NegZero else Fin 0)
         else (if odd_integer ex then NegInf else PosInf))
      else if ex = PosInf then
        (if 1 < mag base then PosInf else if mag base = 1 then NaN else Fin 0)
      else if ex = NegInf then
        (if 1 < mag base then Fin 0 else if mag base = 1 then NaN else PosInf)
      else
        (case (base, ex) of
           (Fin b, Fin x) \<Rightarrow>
             if b < 0 \<and> x \<noteq> of_int \<lfloor>x\<rfloor> then NaN else pow_approx H b x
         | _ \<Rightarrow> NaN))"

subsection \<open>Reading a number\<close>

definition digit_val :: "char \<Rightarrow> nat" where
  "digit_val c = of_char c - 48"

definition nat_of_digits :: "string \<Rightarrow> nat" where
  "nat_of_digits ds = foldl (\<lambda>a c. 10 * a + digit_val c) 0 ds"

text \<open>The value of the decimal literal with integer digits \<open>ip\<close> and fraction digits \<open>fp\<close>.\<close>

definition dec_value :: "string \<Rightarrow> string \<Rightarrow> rat" where
  "dec_value ip fp = of_nat (nat_of_digits ip) + of_nat (nat_of_digits fp) / 10 ^ length fp"

text \<open>
  \<^verbatim>\<open>Number(text)\<close>. The empty text gives 0. A text of digits and dots is a decimal
  literal when it has at most one dot and at least one digit, and gives the binary64
  value nearest to it; otherwise it gives NaN. Any other text is left to the host.
\<close>

definition Number :: "host \<Rightarrow> string \<Rightarrow> jsnum" where
  "Number H text =
     (if text = [] then Fin 0
      else if list_all is_numch text then
        (let ip = takeWhile is_digit text; r = dropWhile is_digit text in
         if r = [] then rnd (dec_value ip [])
         else (let fp = tl r in
               if list_all is_digit fp \<and> (ip \<noteq> [] \<or> fp \<noteq> []) then rnd (dec_value ip fp)
               else NaN))
      else Number_other H text)"

section \<open>The postfix evaluator\<close>

text \<open>
  The array \<open>stack\<close> is declared \<^verbatim>\<open>number[]\<close>, but \<^verbatim>\<open>CONSTANTS[t.value]\<close> can put other
  values on it: \<^verbatim>\<open>undefined\<close> for a key the table lacks, an inherited object for a key
  of \<^verbatim>\<open>Object.prototype\<close>; and \<^verbatim>\<open>+\<close> with such an object concatenates strings. An
  object of \<^verbatim>\<open>Object.prototype\<close> and a string made from one convert to the number NaN
  and are never \<^verbatim>\<open>=== 0\<close>; \<open>NotNumeric\<close> stands for both.
\<close>

datatype jsval = Num jsnum | NotNumeric | Undefined

text \<open>\<^verbatim>\<open>CONSTANTS[key]\<close>; \<^verbatim>\<open>Math.PI\<close> and \<^verbatim>\<open>Math.E\<close> are the binary64 values nearest to them.\<close>

definition CONSTANTS :: "string \<Rightarrow> jsval" where
  "CONSTANTS key =
     (if key = ''pi'' then Num (Fin (884279719003555 / 2 ^ 48))
      else if key = ''e'' then Num (Fin (6121026514868073 / 2 ^ 51))
      else if key \<in> set Object_prototype_keys then NotNumeric
      else Undefined)"

fun ToNumber :: "jsval \<Rightarrow> jsnum" where
  "ToNumber (Num x) = x"
| "ToNumber _ = NaN"

text \<open>\<^verbatim>\<open>a + b\<close>: a sum of two numbers, a string as soon as one side is no number.\<close>

fun js_plus :: "jsval \<Rightarrow> jsval \<Rightarrow> jsval" where
  "js_plus (Num x) (Num y) = Num (num_add x y)"
| "js_plus _ _ = NotNumeric"

text \<open>\<^verbatim>\<open>b === 0\<close>, \<^verbatim>\<open>a <= 0\<close> and \<^verbatim>\<open>a < 0\<close>; both zeros are \<^verbatim>\<open>=== 0\<close>, NaN compares false.\<close>

definition eq_zero :: "jsval \<Rightarrow> bool" where
  "eq_zero v = (v = Num (Fin 0) \<or> v = Num NegZero)"

fun le_zero :: "jsval \<Rightarrow> bool" where
  "le_zero (Num (Fin q)) = (q \<le> 0)"
| "le_zero (Num NegZero) = True"
| "le_zero (Num NegInf) = True"
| "le_zero _ = False"

fun lt_zero :: "jsval \<Rightarrow> bool" where
  "lt_zero (Num (Fin q)) = (q < 0)"
| "lt_zero (Num NegInf) = True"
| "lt_zero _ = False"

text \<open>
  The \<^verbatim>\<open>switch\<close> of an operator token on the popped \<open>a\<close> and \<open>b\<close> (lines 115--122) and of
  a function token on the popped \<open>a\<close> (lines 126--140); the result is the value pushed.
\<close>

definition apply_op :: "host \<Rightarrow> string \<Rightarrow> jsval \<Rightarrow> jsval \<Rightarrow> error + jsval" where
  "apply_op H v a b =
     (if v = ''+'' then Inr (js_plus a b)
      else if v = ''-'' then Inr (Num (num_sub (ToNumber a) (ToNumber b)))
      else if v = ''*'' then Inr (Num (num_mul (ToNumber a) (ToNumber b)))
      else if v = ''/'' then
        (if eq_zero b then Inl DivisionByZero
         else Inr (Num (num_div (ToNumber a) (ToNumber b))))
      else if v = ''^'' then Inr (Num (Math_pow H (ToNumber a) (ToNumber b)))
      else Inl UnknownOperator)"

definition apply_fn :: "host \<Rightarrow> string \<Rightarrow> jsval \<Rightarrow> error + jsval" where
  "apply_fn H v a =
     (if v = ''sin'' then Inr (Num (Math_sin H (ToNumber a)))
      else if v = ''cos'' then Inr (Num (Math_cos H (ToNumber a)))
      else if v = ''tan'' then Inr (Num (Math_tan H (ToNumber a)))
      else if v = ''log'' then
        (if le_zero a then Inl LogDomainError else Inr (Num (Math_log10 H (ToNumber a))))
      else if v = ''ln'' then
        (if le_zero a then Inl LnDomainError else Inr (Num (Math_log H (ToNumber a))))
      else if v = ''sqrt'' then
        (if lt_zero a then Inl SqrtDomainError else Inr (Num (Math_sqrt H (ToNumber a))))
      else Inl UnknownFunction)"

text \<open>
  The \<^verbatim>\<open>for\<close> loop over the postfix tokens; the stack has its top first. \<^verbatim>\<open>stack.pop()\<close>
  on an empty array gives \<^verbatim>\<open>undefined\<close>, and so does popping an \<^verbatim>\<open>undefined\<close> that a
  constant token pushed. A token of type \<^verbatim>\<open>'paren'\<close> matches no branch and is skipped.
\<close>

fun pop :: "jsval list \<Rightarrow> jsval \<times> jsval list" where
  "pop [] = (Undefined, [])"
| "pop (v # stack) = (v, stack)"

text \<open>The body of the loop for one token \<open>t\<close>: the new stack, or the error thrown.\<close>

definition rpn_step :: "host \<Rightarrow> jsval list \<Rightarrow> token \<Rightarrow> error + jsval list" where
  "rpn_step H stack t =
     (if type t = TNumber then Inr (Num (Number H (val t)) # stack)
      else if type t = TConst then Inr (CONSTANTS (val t) # stack)
      else if type t = TOp then
        (case pop stack of (b, stack1) \<Rightarrow>
         case pop stack1 of (a, stack2) \<Rightarrow>
           if a = Undefined \<or> b = Undefined then Inl InvalidExpression
           else (case apply_op H (val t) a b of
                   Inl e \<Rightarrow> Inl e
                 | Inr r \<Rightarrow> Inr (r # stack2)))
      else if type t = TFn then
        (case pop stack of (a, stack1) \<Rightarrow>
           if a = Undefined then Inl InvalidFunctionCall
           else (case apply_fn H (val t) a of
                   Inl e \<Rightarrow> Inl e
                 | Inr r \<Rightarrow> Inr (r # stack1)))
      else Inr stack)"

fun run_rpn :: "host \<Rightarrow> jsval list \<Rightarrow> token list \<Rightarrow> error + jsval list" where
  "run_rpn H stack [] = Inr stack"
| "run_rpn H stack (t # rpn) =
     (case rpn_step H stack t of
        Inl e \<Rightarrow> Inl e
      | Inr stack' \<Rightarrow> run_rpn H stack' rpn)"

text \<open>\<^verbatim>\<open>stack[0]\<close> is the bottom of the stack; with one element it is that element.\<close>

definition evaluateRPN :: "host \<Rightarrow> token list \<Rightarrow> error + jsval" where
  "evaluateRPN H rpn =
     (case run_rpn H [] rpn of
        Inl e \<Rightarrow> Inl e
      | Inr stack \<Rightarrow> if length stack \<noteq> 1 then Inl InvalidExpression else Inr (last stack))"

definition evaluate :: "host \<Rightarrow> string \<Rightarrow> error + jsval" where
  "evaluate H expr =
     (case tokenize expr of
        Inl e \<Rightarrow> Inl e
      | Inr tokens \<Rightarrow>
          (case toRPN (str_lt H) tokens of
             Inl e \<Rightarrow> Inl e
           | Inr rpn \<Rightarrow> evaluateRPN H rpn))"

section \<open>The input session (calculator.ts)\<close>

subsection \<open>Formatting a number\<close>

text \<open>The character of a digit \<open>d < 10\<close>.\<close>

definition digit_char :: "nat \<Rightarrow> char" where
  "digit_char d = ''0123456789'' ! d"

text \<open>The decimal digits of a natural number, without leading zeros.\<close>

function digits_of :: "nat \<Rightarrow> string" where
  "digits_of n = (if n < 10 then [digit_char n] else digits_of (n div 10) @ [digit_char (n mod 10)])"
  by pat_completeness auto
termination
  by (relation "measure id") auto

text \<open>
  \<^verbatim>\<open>Number.prototype.toPrecision(p)\<close> as the standard defines it. From the \<open>p\<close> digits \<open>m\<close>
  and the decimal exponent \<open>e\<close>: exponential notation when \<open>e < -6\<close> or \<open>e \<ge> p\<close>, the bare
  digits when \<open>e = p - 1\<close>, else the digits with a decimal point after \<open>e + 1\<close> of them, or
  after \<^verbatim>\<open>0.\<close> and \<open>-(e + 1)\<close> zeros.
\<close>

definition render :: "nat \<Rightarrow> string \<Rightarrow> int \<Rightarrow> string" where
  "render p m e =
     (if e < - 6 \<or> int p \<le> e then
        (if p \<noteq> 1 then [hd m] @ ''.'' @ tl m else m) @ ''e'' @
        (if 0 < e then ''+'' @ digits_of (nat e) else ''-'' @ digits_of (nat (- e)))
      else if e = int p - 1 then m
      else if 0 \<le> e then take (nat (e + 1)) m @ ''.'' @ drop (nat (e + 1)) m
      else ''0.'' @ replicate (nat (- (e + 1))) CHR ''0'' @ m)"

text \<open>
  For \<open>a > 0\<close> the standard asks for integers \<open>e\<close> and \<open>n\<close> with
  \<open>10 ^ (p - 1) \<le> n < 10 ^ p\<close> and \<open>n * 10 ^ (e - p + 1)\<close> nearest to \<open>a\<close>, the larger \<open>n\<close> on
  a tie: \<open>a\<close> scaled by its own decimal exponent and rounded half up; when that reaches
  \<open>10 ^ p\<close> the exponent is one more and \<open>n\<close> is \<open>10 ^ (p - 1)\<close>.
\<close>

definition precision_digits :: "nat \<Rightarrow> rat \<Rightarrow> string \<times> int" where
  "precision_digits p a =
     (if a = 0 then (replicate p CHR ''0'', 0)
      else (let e0 = ilog 10 a;
                n0 = nat \<lfloor>a / ipow 10 (e0 - (int p - 1)) + 1 / 2\<rfloor> in
            if n0 = 10 ^ p then (digits_of (10 ^ (p - 1)), e0 + 1) else (digits_of n0, e0)))"

fun toPrecision :: "jsnum \<Rightarrow> nat \<Rightarrow> string" where
  "toPrecision NaN p = ''NaN''"
| "toPrecision PosInf p = ''Infinity''"
| "toPrecision NegInf p = ''-Infinity''"
| "toPrecision NegZero p = (case precision_digits p 0 of (m, e) \<Rightarrow> render p m e)"
| "toPrecision (Fin q) p =
     (if q < 0 then ''-'' else []) @ (case precision_digits p \<bar>q\<bar> of (m, e) \<Rightarrow> render p m e)"

text \<open>
  \<^verbatim>\<open>Number.parseFloat(String(n))\<close>: \<^verbatim>\<open>String\<close> gives a decimal that reads back as the
  same number; only the sign of a zero is lost.
\<close>

definition parseFloat_String :: "jsnum \<Rightarrow> jsnum" where
  "parseFloat_String n = (if n = NegZero then Fin 0 else n)"

text \<open>
  \<^verbatim>\<open>s.replace(re, '')\<close> for a regular expression \<open>re\<close> that ends in \<^verbatim>\<open>$\<close> and has no flag:
  the match found is the one that starts leftmost, it reaches the end of \<open>s\<close>, and
  removing it keeps what stands before it. \<open>M pre post\<close> says that \<open>re\<close> matches
  \<open>post\<close>, standing behind \<open>pre\<close>.
\<close>

fun replace_suffix :: "(string \<Rightarrow> string \<Rightarrow> bool) \<Rightarrow> string \<Rightarrow> string \<Rightarrow> string" where
  "replace_suffix M pre [] = pre"
| "replace_suffix M pre (c # cs) =
     (if M pre (c # cs) then pre else replace_suffix M (pre @ [c]) cs)"

definition zeros :: "string \<Rightarrow> bool" where
  "zeros s = (s \<noteq> [] \<and> list_all (\<lambda>c. c = CHR ''0'') s)"

text \<open>
  \<^verbatim>\<open>/(?:\.0+|(?<=\.[0-9]*[1-9])0+)$/\<close>: a dot and zeros up to the end, or zeros up to the
  end standing behind a dot, digits and a digit from 1 to 9.
\<close>

definition lookbehind :: "string \<Rightarrow> bool" where
  "lookbehind pre =
     (case rev pre of
        [] \<Rightarrow> False
      | c # r \<Rightarrow> c \<in> set ''123456789'' \<and>
          (case dropWhile is_digit r of [] \<Rightarrow> False | d # _ \<Rightarrow> d = CHR ''.''))"

definition re1 :: "string \<Rightarrow> string \<Rightarrow> bool" where
  "re1 pre post =
     ((case post of [] \<Rightarrow> False | c # zs \<Rightarrow> c = CHR ''.'' \<and> zeros zs) \<or>
      (lookbehind pre \<and> zeros post))"

text \<open>\<^verbatim>\<open>/\.?0+$/\<close>: zeros up to the end, with a dot before them or not.\<close>

definition re2 :: "string \<Rightarrow> string \<Rightarrow> bool" where
  "re2 pre post =
     ((case post of [] \<Rightarrow> False | c # zs \<Rightarrow> c = CHR ''.'' \<and> zeros zs) \<or> zeros post)"

definition Calculator_format :: "jsnum \<Rightarrow> string" where
  "Calculator_format n =
     (let s = toPrecision (parseFloat_String n) 12 in
      replace_suffix re2 [] (replace_suffix re1 [] s))"

subsection \<open>The four operations\<close>

text \<open>
  The state is the private field \<open>input\<close>. Each operation returns the new state and
  the arguments of its calls of the display callback \<open>onChange\<close>, in order.
\<close>

record calculator =
  input :: string

text \<open>\<^verbatim>\<open>this.input || '0'\<close>: the empty string is falsy.\<close>

definition or0 :: "string \<Rightarrow> string" where
  "or0 s = (if s = [] then ''0'' else s)"

text \<open>\<^verbatim>\<open>/^[0-9a-zA-Z+\-*/^().]*$/.test(value)\<close>.\<close>

definition allowed :: "string \<Rightarrow> bool" where
  "allowed v = list_all (\<lambda>c. is_digit c \<or> is_letter c \<or> c \<in> set ''+-*/^().'') v"

definition Calculator_append :: "string \<Rightarrow> calculator \<Rightarrow> calculator \<times> string list" where
  "Calculator_append v c =
     (if \<not> allowed v then (c, [])
      else (let c' = c\<lparr>input := input c @ v\<rparr> in (c', [or0 (input c')])))"

definition Calculator_backspace :: "calculator \<Rightarrow> calculator \<times> string list" where
  "Calculator_backspace c = (let c' = c\<lparr>input := butlast (input c)\<rparr> in (c', [or0 (input c')]))"

definition Calculator_clear :: "calculator \<Rightarrow> calculator \<times> string list" where
  "Calculator_clear c = (c\<lparr>input := []\<rparr>, [''0''])"

text \<open>\<^verbatim>\<open>Number.isFinite(result)\<close>: false for anything that is not a finite number.\<close>

fun isFinite :: "jsval \<Rightarrow> bool" where
  "isFinite (Num (Fin q)) = True"
| "isFinite (Num NegZero) = True"
| "isFinite _ = False"

text \<open>
  \<^verbatim>\<open>Calculator.evaluate\<close>: the \<^verbatim>\<open>try\<close> block on success, the \<^verbatim>\<open>catch\<close> block on an
  error of the parser.
\<close>

definition Calculator_evaluate :: "host \<Rightarrow> calculator \<Rightarrow> calculator \<times> string list" where
  "Calculator_evaluate H c =
     (case evaluate H (or0 (input c)) of
        Inl e \<Rightarrow> (c, [''Error: '' @ message e])
      | Inr result \<Rightarrow>
          (let out = (if isFinite result then Calculator_format (ToNumber result) else ''Error'');
               c' = c\<lparr>input := out\<rparr>
           in (c', [input c'])))"

section \<open>Parenthesis nesting\<close>

text \<open>
  The nesting of the parentheses of a token sequence, read from the left with the
  number \<open>d\<close> of parentheses open so far: an opening parenthesis adds one, a closing
  one takes one away and is unmatched (\<open>None\<close>) when none is open. A sequence is
  balanced when it has no unmatched closing parenthesis and none left open. A
  parenthesis token whose text is not \<^verbatim>\<open>(\<close> closes, as in the source's \<^verbatim>\<open>else\<close> branch.
\<close>

fun depth :: "nat \<Rightarrow> token list \<Rightarrow> nat option" where
  "depth d [] = Some d"
| "depth d (t # ts) =
     (if type t = TParen then
        (if val t = ''('' then depth (Suc d) ts
         else (case d of 0 \<Rightarrow> None | Suc d' \<Rightarrow> depth d' ts))
      else depth d ts)"

definition balanced :: "token list \<Rightarrow> bool" where
  "balanced ts = (depth 0 ts = Some 0)"

text \<open>The parenthesis tokens on the operator stack, and the stacks that hold only opening ones.\<close>

definition parens :: "token list \<Rightarrow> token list" where
  "parens ops = filter (\<lambda>t. type t = TParen) ops"

definition only_open :: "token list \<Rightarrow> bool" where
  "only_open ops = list_all (\<lambda>t. val t = ''('') (parens ops)"

definition no_paren :: "token list \<Rightarrow> bool" where
  "no_paren output = (parens output = [])"

section \<open>Trimming a decimal\<close>

text \<open>
  What the number formatting is meant to do with the 12-digit rendering: strip the
  trailing zeros of the fraction, and the decimal point when no fraction digit is
  left. A rendering without a decimal point is left as it is.
\<close>

definition strip_zeros :: "string \<Rightarrow> string" where
  "strip_zeros s = rev (dropWhile (\<lambda>c. c = CHR ''0'') (rev s))"

definition trim :: "string \<Rightarrow> string" where
  "trim s =
     (if CHR ''.'' \<in> set s then
        (let s1 = strip_zeros s in
         if s1 \<noteq> [] \<and> last s1 = CHR ''.'' then butlast s1 else s1)
      else s)"

section \<open>The operator table of the specification\<close>

text \<open>
  The table as the specification gives it: \<open>+\<close> and \<open>-\<close> have precedence 1, \<open>*\<close> and \<open>/\<close>
  precedence 2, all four left-associative; \<open>^\<close> has precedence 3 and is
  right-associative. An operator \<open>tp\<close> on top of the stack resolves before an arriving
  operator \<open>t\<close> when \<open>tp\<close> is left-associative and its precedence is at least that of
  \<open>t\<close>, or \<open>tp\<close> is right-associative and its precedence is greater.
\<close>

datatype assoc = LeftAssoc | RightAssoc

definition operators :: "string list" where
  "operators = [''+'', ''-'', ''*'', ''/'', ''^'']"

definition spec_table :: "string \<Rightarrow> (nat \<times> assoc) option" where
  "spec_table = map_of [(''+'', (1, LeftAssoc)), (''-'', (1, LeftAssoc)),
     (''*'', (2, LeftAssoc)), (''/'', (2, LeftAssoc)), (''^'', (3, RightAssoc))]"

definition resolves_first :: "string \<Rightarrow> string \<Rightarrow> bool" where
  "resolves_first tp t =
     (case (spec_table tp, spec_table t) of
        (Some (p1, a1), Some (p2, a2)) \<Rightarrow>
          (a1 = LeftAssoc \<and> p2 \<le> p1) \<or> (a1 = RightAssoc \<and> p2 < p1)
      | _ \<Rightarrow> False)"

text \<open>
  A token on the stack that goes to the output before an arriving operator \<open>v\<close>: a
  function token, or an operator token that resolves first.
\<close>

definition goes_before :: "string \<Rightarrow> token \<Rightarrow> bool" where
  "goes_before v tp = (type tp = TFn \<or> type tp = TOp \<and> resolves_first (val tp) v)"

text \<open>An operand token: a number or a constant.\<close>

definition operand :: "token \<Rightarrow> bool" where
  "operand t = (type t = TNumber \<or> type t = TConst)"

section \<open>Properties\<close>

text \<open>
  The recursion equations of \<open>nlog\<close> and \<open>digits_of\<close> are unfolded on request only.
\<close>

declare nlog.simps [simp del] digits_of.simps [simp del]

text \<open>The definitions that evaluating the parser on a given text unfolds.\<close>

lemma replicate_unfold: "replicate (numeral k) c = c # replicate (pred_numeral k) c"
  by (simp add: numeral_eq_Suc)

text \<open>Floor and ceiling of a quotient of two numerals, for evaluating the rounding.\<close>

lemma floor_rat_quotient: "\<lfloor>numeral a / numeral b :: rat\<rfloor> = numeral a div numeral b"
  using floor_divide_of_int_eq [of "numeral a" "numeral b", where ?'a = rat] by simp

lemma ceiling_rat_quotient:
  "\<lceil>numeral a / numeral b :: rat\<rceil> = - (- numeral a div numeral b)"
  using ceiling_divide_eq_div [of "numeral a" "numeral b", where ?'a = rat] by simp

lemmas lex_defs = tokenize_def cleaned_def is_space_def is_numch_def is_digit_def
  is_letter_def is_opch_def is_alnum_def mk_def FUNCTIONS_has_def in_CONSTANTS_def
  Object_prototype_keys_def Let_def

lemmas rpn_defs = toRPN_def PRECEDENCE_def RIGHT_ASSOC_has_def

lemmas num_defs = Number_def dec_value_def nat_of_digits_def digit_val_def
  rnd_def rnd_signed_def ilog_def nlog.simps rne_def ipow_def
  is_zero_def num_sub_def num_mul_def num_div_def signed_inf_def signed_zero_def
  floor_rat_quotient ceiling_rat_quotient

lemmas eval_defs = evaluateRPN_def rpn_step_def apply_op_def apply_fn_def eq_zero_def
  CONSTANTS_def

lemmas parser_defs = evaluate_def lex_defs rpn_defs num_defs eval_defs

lemmas format_defs = Calculator_format_def parseFloat_String_def precision_digits_def
  render_def re1_def re2_def lookbehind_def zeros_def is_digit_def ilog_def nlog.simps
  digits_of.simps ipow_def
  digit_char_def replicate_unfold floor_rat_quotient ceiling_rat_quotient Let_def

subsection \<open>Precedence and associativity\<close>

text \<open>The source's table and its test agree with the table of the specification.\<close>

lemma operator_cases:
  "v \<in> set operators \<Longrightarrow> v = ''+'' \<or> v = ''-'' \<or> v = ''*'' \<or> v = ''/'' \<or> v = ''^''"
  by (simp add: operators_def)

lemma source_test_is_resolves_first:
  assumes "v1 \<in> set operators" and "v2 \<in> set operators"
  shows "(let p1 = PRECEDENCE v1; p2 = PRECEDENCE v2 in
           (RIGHT_ASSOC_has v2 \<and> prec_lt lt p2 p1) \<or>
           (\<not> RIGHT_ASSOC_has v2 \<and> prec_le lt p2 p1)) = resolves_first v1 v2"
  using operator_cases [OF assms(1)] operator_cases [OF assms(2)]
  by (elim disjE) (simp_all add: PRECEDENCE_def RIGHT_ASSOC_has_def resolves_first_def
      spec_table_def)

text \<open>
  The loop of an arriving operator \<open>t\<close>, on a stack with the operator \<open>tp\<close> on top:
  \<open>tp\<close> goes to the output and the loop goes on when \<open>tp\<close> resolves first, and else the
  loop ends with the stack as it is.
\<close>

lemma pop_for_op_rule:
  assumes "type tp = TOp" and "val tp \<in> set operators" and "val t \<in> set operators"
  shows "pop_for_op lt t out (tp # ops) =
           (if resolves_first (val tp) (val t) then pop_for_op lt t (out @ [tp]) ops
            else (out, tp # ops))"
  using assms(1) source_test_is_resolves_first [OF assms(2,3), of lt]
  by simp

text \<open>
  The whole loop, on any stack whose operator tokens are operators of the table: the
  tokens that go before \<open>t\<close>, from the top down to the first that does not, are moved
  to the output in that order.
\<close>

lemma pop_for_op_closed:
  assumes "\<forall>x \<in> set stack. type x = TOp \<longrightarrow> val x \<in> set operators"
    and "val t \<in> set operators"
  shows "pop_for_op lt t out stack =
           (out @ takeWhile (goes_before (val t)) stack, dropWhile (goes_before (val t)) stack)"
  using assms(1)
proof (induction stack arbitrary: out)
  case Nil
  then show ?case by simp
next
  case (Cons tp stack)
  show ?case
  proof (cases "type tp = TOp")
    case True
    with Cons.prems have "val tp \<in> set operators"
      by simp
    from source_test_is_resolves_first [OF this assms(2), of lt] True Cons
    show ?thesis
      by (simp add: goes_before_def)
  next
    case False
    with Cons show ?thesis
      by (simp add: goes_before_def)
  qed
qed

lemma pop_for_op_one:
  assumes "v1 \<in> set operators" and "v2 \<in> set operators"
  shows "pop_for_op lt (mk TOp v2) out [mk TOp v1] =
           (if resolves_first v1 v2 then (out @ [mk TOp v1], []) else (out, [mk TOp v1]))"
  using pop_for_op_rule [of "mk TOp v1" "mk TOp v2" lt out "[]"] assms
  by (simp add: mk_def)

text \<open>Two operators between three operands.\<close>

lemma toRPN_two_operators:
  assumes "operand a" and "operand b" and "operand c"
    and "v1 \<in> set operators" and "v2 \<in> set operators"
  shows "toRPN lt [a, mk TOp v1, b, mk TOp v2, c] =
           Inr (if resolves_first v1 v2 then [a, b, mk TOp v1, c, mk TOp v2]
                else [a, b, c, mk TOp v2, mk TOp v1])"
proof -
  have ty: "type (mk TOp v1) = TOp" "type (mk TOp v2) = TOp"
    by (simp_all add: mk_def)
  have e: "pop_for_op lt (mk TOp v1) [a] [] = ([a], [])"
    by simp
  from assms(1-3) ty show ?thesis
    by (simp add: toRPN_def operand_def e pop_for_op_one [OF assms(4,5)]
        del: pop_for_op.simps)
qed

text \<open>A parenthesised pair resolves first, whatever the operators.\<close>

lemma toRPN_parenthesised:
  assumes "operand a" and "operand b" and "operand c"
    and "v1 \<in> set operators" and "v2 \<in> set operators"
  shows "toRPN lt [mk TParen ''('', a, mk TOp v1, b, mk TParen '')'', mk TOp v2, c] =
           Inr [a, b, mk TOp v1, c, mk TOp v2]"
  using assms(1-3) by (simp add: toRPN_def operand_def mk_def)

lemma evaluate_power_tower:
  "evaluate H ''2^3^2'' = Inr (Num (Math_pow H (Fin 2) (Math_pow H (Fin 3) (Fin 2))))"
  by (simp add: parser_defs)

lemma Math_pow_host:
  "b \<noteq> 0 \<Longrightarrow> x \<noteq> 0 \<Longrightarrow> x = of_int \<lfloor>x\<rfloor> \<Longrightarrow> Math_pow H (Fin b) (Fin x) = pow_approx H b x"
  by (simp add: Math_pow_def is_zero_def)

lemma evaluate_left_grouped: "evaluate H ''8-3-2'' = Inr (Num (Fin 3))"
  by (simp add: parser_defs)

lemma evaluate_product_first: "evaluate H ''2+3*4'' = Inr (Num (Fin 14))"
  by (simp add: parser_defs)

lemma evaluate_parenthesised: "evaluate H ''(2+3)*4'' = Inr (Num (Fin 20))"
  by (simp add: parser_defs)

text \<open>
  C1. The source's table is the one of the specification: \<open>+ -\<close> at precedence 1,
  \<open>* /\<close> at 2, \<open>^\<close> at 3, and only \<open>^\<close> right-associative. For any two operators of the
  table, the loop of an arriving operator pops the operator on top of the stack
  exactly when that one resolves first by the table, and on any stack of functions,
  parentheses and operators of the table it moves to the output exactly the
  functions and the operators that resolve first, from the top down to the first
  token that is neither; so the postfix form of
  \<open>a v1 b v2 c\<close>, for any operands, applies \<open>v1\<close> to \<open>a\<close> and \<open>b\<close> first exactly when \<open>v1\<close>
  resolves first, and else applies \<open>v2\<close> to \<open>b\<close> and \<open>c\<close> first; parentheses around
  \<open>a v1 b\<close> make \<open>v1\<close> come first in every case. Evaluating \<^verbatim>\<open>8-3-2\<close> gives 3, \<^verbatim>\<open>2+3*4\<close>
  gives 14 and \<^verbatim>\<open>(2+3)*4\<close> gives 20 on every host. Evaluating \<^verbatim>\<open>2^3^2\<close> gives
  \<^verbatim>\<open>Math.pow(2, Math.pow(3, 2))\<close> on every host, which is 512 when the host's
  \<^verbatim>\<open>Math.pow\<close> is exact at \<open>3 ^ 2\<close> and \<open>2 ^ 9\<close>.
\<close>

theorem infix_precedence_and_associativity:
  assumes "operand a" and "operand b" and "operand c"
    and "v1 \<in> set operators" and "v2 \<in> set operators"
    and "type tp = TOp" and "val tp = v1" and "val t = v2"
    and "pow_approx H 3 2 = Fin 9" and "pow_approx H 2 9 = Fin 512"
    and "\<forall>x \<in> set stack. type x = TOp \<longrightarrow> val x \<in> set operators"
  shows "map PRECEDENCE operators = [PNum 1, PNum 1, PNum 2, PNum 2, PNum 3] \<and>
         map RIGHT_ASSOC_has operators = [False, False, False, False, True] \<and>
         pop_for_op lt t out stack =
           (out @ takeWhile (goes_before v2) stack, dropWhile (goes_before v2) stack) \<and>
         pop_for_op lt t out (tp # ops) =
           (if resolves_first v1 v2 then pop_for_op lt t (out @ [tp]) ops
            else (out, tp # ops)) \<and>
         toRPN lt [a, mk TOp v1, b, mk TOp v2, c] =
           Inr (if resolves_first v1 v2 then [a, b, mk TOp v1, c, mk TOp v2]
                else [a, b, c, mk TOp v2, mk TOp v1]) \<and>
         toRPN lt [mk TParen ''('', a, mk TOp v1, b, mk TParen '')'', mk TOp v2, c] =
           Inr [a, b, mk TOp v1, c, mk TOp v2] \<and>
         evaluate H ''2^3^2'' = Inr (Num (Math_pow H (Fin 2) (Math_pow H (Fin 3) (Fin 2)))) \<and>
         evaluate H ''2^3^2'' = Inr (Num (Fin 512)) \<and>
         evaluate H ''8-3-2'' = Inr (Num (Fin 3)) \<and>
         evaluate H ''2+3*4'' = Inr (Num (Fin 14)) \<and>
         evaluate H ''(2+3)*4'' = Inr (Num (Fin 20))"
proof -
  have table: "map PRECEDENCE operators = [PNum 1, PNum 1, PNum 2, PNum 2, PNum 3]"
    by (simp add: operators_def PRECEDENCE_def)
  have right: "map RIGHT_ASSOC_has operators = [False, False, False, False, True]"
    by (simp add: operators_def RIGHT_ASSOC_has_def)
  have pop: "pop_for_op lt t out (tp # ops) =
           (if resolves_first v1 v2 then pop_for_op lt t (out @ [tp]) ops
            else (out, tp # ops))"
    using pop_for_op_rule [of tp t lt out ops] assms(4-8) by simp
  have closed: "pop_for_op lt t out stack =
           (out @ takeWhile (goes_before v2) stack, dropWhile (goes_before v2) stack)"
    using pop_for_op_closed [OF assms(11), of t lt out] assms(5,8) by simp
  have "Math_pow H (Fin 3) (Fin 2) = Fin 9"
    using assms(9) by (simp add: Math_pow_host)
  moreover have "Math_pow H (Fin 2) (Fin 9) = Fin 512"
    using assms(10) by (simp add: Math_pow_host)
  ultimately have tower: "evaluate H ''2^3^2'' = Inr (Num (Fin 512))"
    by (simp add: evaluate_power_tower)
  show ?thesis
    by (intro conjI) (rule table right closed pop toRPN_two_operators [OF assms(1-5)]
        toRPN_parenthesised [OF assms(1-5)] evaluate_power_tower tower
        evaluate_left_grouped evaluate_product_first evaluate_parenthesised)+
qed

theorem infix_precedence_and_associativity_witness:
  "\<forall>lt. toRPN lt [mk TNumber ''2'', mk TOp ''*'', mk TNumber ''3'', mk TOp ''+'', mk TNumber ''4'']
          = Inr [mk TNumber ''2'', mk TNumber ''3'', mk TOp ''*'', mk TNumber ''4'', mk TOp ''+''] \<and>
        pop_for_op lt (mk TOp ''+'') [] [mk TOp ''*''] = ([mk TOp ''*''], []) \<and>
        pop_for_op lt (mk TOp ''+'') [] [mk TOp ''*'', mk TParen ''('', mk TOp ''-''] =
          ([mk TOp ''*''], [mk TParen ''('', mk TOp ''-'']) \<and>
        (\<exists>H. pow_approx H 3 2 = Fin 9 \<and> pow_approx H 2 9 = Fin 512 \<and>
           evaluate H ''2^3^2'' = Inr (Num (Fin 512)))"
proof
  fix lt :: "string \<Rightarrow> string \<Rightarrow> bool"
  define H :: host where "H = \<lparr>str_lt = lt, Number_other = (\<lambda>s. NaN), Math_sin = (\<lambda>x. NaN),
    Math_cos = (\<lambda>x. NaN), Math_tan = (\<lambda>x. NaN), Math_log10 = (\<lambda>x. NaN), Math_log = (\<lambda>x. NaN),
    Math_sqrt = (\<lambda>x. NaN), pow_approx = (\<lambda>b x. if b = 3 then Fin 9 else Fin 512)\<rparr>"
  have h: "pow_approx H 3 2 = Fin 9" "pow_approx H 2 9 = Fin 512"
    by (simp_all add: H_def)
  have o: "operand (mk TNumber ''2'')" "operand (mk TNumber ''3'')" "operand (mk TNumber ''4'')"
    by (simp_all add: operand_def mk_def)
  have v: "''*'' \<in> set operators" "''+'' \<in> set operators"
    by (simp_all add: operators_def)
  have t: "type (mk TOp ''*'') = TOp" "val (mk TOp ''*'') = ''*''" "val (mk TOp ''+'') = ''+''"
    by (simp_all add: mk_def)
  have r: "resolves_first ''*'' ''+''"
    by (simp add: resolves_first_def spec_table_def)
  let ?st = "[mk TOp ''*'', mk TParen ''('', mk TOp ''-'']"
  have st: "\<forall>x \<in> set ?st. type x = TOp \<longrightarrow> val x \<in> set operators"
    by (simp add: mk_def operators_def)
  have g: "goes_before ''+'' (mk TOp ''*'')" "\<not> goes_before ''+'' (mk TParen ''('')"
    using r by (simp_all add: goes_before_def mk_def)
  note T = infix_precedence_and_associativity [OF o v t h st, of lt "[]" "[]"]
  from T have "pop_for_op lt (mk TOp ''+'') [] ?st =
      ([] @ takeWhile (goes_before ''+'') ?st, dropWhile (goes_before ''+'') ?st)"
    by (elim conjE)
  with g have w4: "pop_for_op lt (mk TOp ''+'') [] ?st =
      ([mk TOp ''*''], [mk TParen ''('', mk TOp ''-''])"
    by simp
  from T r have w1: "toRPN lt [mk TNumber ''2'', mk TOp ''*'', mk TNumber ''3'', mk TOp ''+'',
      mk TNumber ''4''] =
      Inr [mk TNumber ''2'', mk TNumber ''3'', mk TOp ''*'', mk TNumber ''4'', mk TOp ''+'']"
    by (simp only: if_True)
  from T r have w2: "pop_for_op lt (mk TOp ''+'') [] [mk TOp ''*''] = ([mk TOp ''*''], [])"
    by (simp only: if_True pop_for_op.simps append_Nil)
  from T have "evaluate H ''2^3^2'' = Inr (Num (Fin 512))"
    by (elim conjE)
  with h have w3: "\<exists>H. pow_approx H 3 2 = Fin 9 \<and> pow_approx H 2 9 = Fin 512 \<and>
           evaluate H ''2^3^2'' = Inr (Num (Fin 512))"
    by blast
  from w1 w2 w4 w3 show "toRPN lt [mk TNumber ''2'', mk TOp ''*'', mk TNumber ''3'', mk TOp ''+'',
      mk TNumber ''4''] =
      Inr [mk TNumber ''2'', mk TNumber ''3'', mk TOp ''*'', mk TNumber ''4'', mk TOp ''+''] \<and>
        pop_for_op lt (mk TOp ''+'') [] [mk TOp ''*''] = ([mk TOp ''*''], []) \<and>
        pop_for_op lt (mk TOp ''+'') [] [mk TOp ''*'', mk TParen ''('', mk TOp ''-''] =
          ([mk TOp ''*''], [mk TParen ''('', mk TOp ''-'']) \<and>
        (\<exists>H. pow_approx H 3 2 = Fin 9 \<and> pow_approx H 2 9 = Fin 512 \<and>
           evaluate H ''2^3^2'' = Inr (Num (Fin 512)))"
    by (intro conjI)
qed

subsection \<open>A failed evaluation keeps the buffer\<close>

lemma evaluate_5_div_0: "evaluate H ''5/0'' = Inl DivisionByZero"
  by (simp add: parser_defs)

text \<open>
  C3. When the tokenizer, the postfix transformation or the postfix evaluation fails
  with an error \<open>e\<close> on the buffer (or on \<^verbatim>\<open>0\<close> for an empty buffer),
  \<^verbatim>\<open>Calculator.evaluate\<close> returns the state unchanged and calls the display callback
  once, with \<^verbatim>\<open>Error: \<close> followed by the message of \<open>e\<close>; a backspace after it does what
  it does on the old state, removing the last character of the old buffer.
\<close>

theorem evaluate_failure_keeps_buffer:
  assumes "tokenize (or0 (input c)) = Inl e \<or>
           (\<exists>tokens. tokenize (or0 (input c)) = Inr tokens \<and>
              (toRPN (str_lt H) tokens = Inl e \<or>
               (\<exists>rpn. toRPN (str_lt H) tokens = Inr rpn \<and> evaluateRPN H rpn = Inl e)))"
  shows "Calculator_evaluate H c = (c, [''Error: '' @ message e]) \<and>
         Calculator_backspace (fst (Calculator_evaluate H c)) = Calculator_backspace c \<and>
         input (fst (Calculator_backspace c)) = butlast (input c)"
proof -
  from assms have "evaluate H (or0 (input c)) = Inl e"
    by (auto simp: evaluate_def)
  then have "Calculator_evaluate H c = (c, [''Error: '' @ message e])"
    by (simp add: Calculator_evaluate_def)
  then show ?thesis
    by (simp add: Calculator_backspace_def)
qed

theorem evaluate_failure_keeps_buffer_witness:
  "\<forall>H. Calculator_evaluate H \<lparr>input = ''5/0''\<rparr> =
          (\<lparr>input = ''5/0''\<rparr>, [''Error: Division by zero'']) \<and>
       input (fst (Calculator_backspace (fst (Calculator_evaluate H \<lparr>input = ''5/0''\<rparr>)))) = ''5/''"
proof
  fix H :: host
  let ?c = "\<lparr>input = ''5/0''\<rparr>"
  have "evaluate H ''5/0'' = Inl DivisionByZero"
    by (rule evaluate_5_div_0)
  then have "tokenize (or0 (input ?c)) = Inl DivisionByZero \<or>
           (\<exists>tokens. tokenize (or0 (input ?c)) = Inr tokens \<and>
              (toRPN (str_lt H) tokens = Inl DivisionByZero \<or>
               (\<exists>rpn. toRPN (str_lt H) tokens = Inr rpn \<and>
                  evaluateRPN H rpn = Inl DivisionByZero)))"
    by (auto simp: or0_def evaluate_def split: sum.splits)
  from evaluate_failure_keeps_buffer [OF this]
  have "Calculator_evaluate H ?c = (?c, [''Error: '' @ message DivisionByZero])"
    and "Calculator_backspace (fst (Calculator_evaluate H ?c)) = Calculator_backspace ?c"
    and "input (fst (Calculator_backspace ?c)) = butlast (input ?c)"
    by blast+
  then show "Calculator_evaluate H ?c = (?c, [''Error: Division by zero'']) \<and>
       input (fst (Calculator_backspace (fst (Calculator_evaluate H ?c)))) = ''5/''"
    by simp
qed

subsection \<open>Identifiers the tokenizer accepts\<close>

text \<open>
  C6. The identifier \<^verbatim>\<open>constructor\<close> is no function name and no constant of the
  table, yet the tokenizer accepts it as a constant token: \<^verbatim>\<open>'constructor' in CONSTANTS\<close>
  is true through \<^verbatim>\<open>Object.prototype\<close>. The text \<^verbatim>\<open>foo(1)\<close> fails with "Unknown
  identifier", and the empty text gives no token.
\<close>

theorem tokenize_accepts_inherited_name:
  "tokenize ''constructor'' = Inr [mk TConst ''constructor''] \<and>
   FUNCTIONS_has ''constructor'' = False \<and>
   tokenize ''foo(1)'' = Inl (UnknownIdentifier ''foo'') \<and> tokenize [] = Inr []"
proof -
  have t1: "tokenize ''constructor'' = Inr [mk TConst ''constructor'']" by (simp add: lex_defs)
  have t2: "FUNCTIONS_has ''constructor'' = False" by (simp add: lex_defs)
  have t3: "tokenize ''foo(1)'' = Inl (UnknownIdentifier ''foo'')" by (simp add: lex_defs)
  have t4: "tokenize [] = Inr []" by (simp add: lex_defs)
  show ?thesis
    by (intro conjI) (rule t1 t2 t3 t4)+
qed

subsection \<open>Evaluating an empty buffer\<close>

lemma evaluate_0: "evaluate H ''0'' = Inr (Num (Fin 0))"
  by (simp add: parser_defs)

lemma toPrecision_0: "toPrecision (Fin 0) 12 = ''0.00000000000''"
  by (simp add: format_defs)

lemma format_0: "Calculator_format (Fin 0) = []"
  by (simp add: format_defs)

text \<open>
  C8. From any state, after \<^verbatim>\<open>clear()\<close>, \<^verbatim>\<open>append("5")\<close> and \<^verbatim>\<open>backspace()\<close> the buffer
  is empty, and \<^verbatim>\<open>evaluate()\<close> then evaluates \<^verbatim>\<open>0\<close> to the number 0; but formatting 0
  gives the empty string (\<^verbatim>\<open>0.00000000000\<close> loses its fraction to the first
  replacement and its last \<^verbatim>\<open>0\<close> to the second), so the display callback is called
  with the empty string and not with \<^verbatim>\<open>0\<close>.
\<close>

theorem empty_buffer_evaluate_displays_empty:
  "input (fst (Calculator_backspace (fst (Calculator_append ''5''
      (fst (Calculator_clear c)))))) = [] \<and>
   evaluate H ''0'' = Inr (Num (Fin 0)) \<and>
   toPrecision (Fin 0) 12 = ''0.00000000000'' \<and>
   snd (Calculator_evaluate H (fst (Calculator_backspace (fst (Calculator_append ''5''
      (fst (Calculator_clear c))))))) = [[]]"
proof -
  have buf: "input (fst (Calculator_backspace (fst (Calculator_append ''5''
      (fst (Calculator_clear c)))))) = []"
    by (simp add: Calculator_clear_def Calculator_append_def Calculator_backspace_def
        allowed_def is_digit_def Let_def)
  then have "snd (Calculator_evaluate H (fst (Calculator_backspace (fst (Calculator_append ''5''
      (fst (Calculator_clear c))))))) = [[]]"
    by (simp add: Calculator_evaluate_def or0_def evaluate_0 format_0)
  with buf show ?thesis
    by (intro conjI) (rule evaluate_0 toPrecision_0 | assumption)+
qed

subsection \<open>Operators are binary\<close>

lemma run_rpn_append:
  "run_rpn H st (xs @ ys) =
     (case run_rpn H st xs of Inl e \<Rightarrow> Inl e | Inr st' \<Rightarrow> run_rpn H st' ys)"
  by (induction xs arbitrary: st) (auto split: sum.splits)

lemma rpn_step_op_underflow:
  assumes "type t = TOp" "length st < 2"
  shows "rpn_step H st t = Inl InvalidExpression"
proof (cases st)
  case Nil
  with assms show ?thesis by (simp add: rpn_step_def)
next
  case (Cons b rest)
  with assms have "rest = []" by simp
  with Cons assms show ?thesis by (simp add: rpn_step_def)
qed

lemma evaluate_minus_5: "evaluate H ''-5'' = Inl InvalidExpression"
  by (simp add: parser_defs)

text \<open>
  C9. An operator token met with fewer than two values on the stack throws "Invalid
  expression", whatever the operator: when the tokens before it leave fewer than two
  values, the evaluation of the whole postfix sequence fails with that error. The
  text \<^verbatim>\<open>-5\<close> is such an input: it fails and is not read as a negation.
\<close>

theorem operator_needs_two_operands:
  assumes "run_rpn H [] pre = Inr st" and "length st < 2" and "type t = TOp"
  shows "rpn_step H st t = Inl InvalidExpression \<and>
         evaluateRPN H (pre @ t # post) = Inl InvalidExpression \<and>
         message InvalidExpression = ''Invalid expression'' \<and>
         evaluate H ''-5'' = Inl InvalidExpression"
proof -
  have step: "rpn_step H st t = Inl InvalidExpression"
    using assms(3,2) by (rule rpn_step_op_underflow)
  with assms(1) have "run_rpn H [] (pre @ t # post) = Inl InvalidExpression"
    by (simp add: run_rpn_append)
  then have "evaluateRPN H (pre @ t # post) = Inl InvalidExpression"
    by (simp add: evaluateRPN_def)
  with step show ?thesis
    by (simp add: evaluate_minus_5)
qed

theorem operator_needs_two_operands_witness:
  "\<forall>H. evaluateRPN H [mk TNumber ''5'', mk TOp ''-''] = Inl InvalidExpression \<and>
       rpn_step H [Num (Number H ''5'')] (mk TOp ''-'') = Inl InvalidExpression"
proof
  fix H :: host
  have "run_rpn H [] [mk TNumber ''5''] = Inr [Num (Number H ''5'')]"
    by (simp add: rpn_step_def mk_def)
  from operator_needs_two_operands [OF this, of "mk TOp ''-''" "[]"]
  show "evaluateRPN H [mk TNumber ''5'', mk TOp ''-''] = Inl InvalidExpression \<and>
       rpn_step H [Num (Number H ''5'')] (mk TOp ''-'') = Inl InvalidExpression"
    by (simp add: mk_def)
qed

subsection \<open>A number token needs no digit\<close>

lemma numch_not_space: "is_numch c \<Longrightarrow> \<not> is_space c"
  by (auto simp: is_numch_def is_digit_def is_space_def)

lemma evaluate_dot: "evaluate H ''.'' = Inr (Num NaN)"
  by (simp add: parser_defs)

text \<open>A nonempty text of digits and dots with at most one dot is one number token.\<close>

lemma tokenize_numeric_text:
  assumes "s \<noteq> []" and "list_all is_numch s" and "length (filter (\<lambda>c. c = CHR ''.'') s) \<le> 1"
  shows "tokenize s = Inr [mk TNumber s]"
proof -
  from assms(1) obtain c cs where s: "s = c # cs" by (cases s) auto
  from assms(2) have cl: "cleaned s = s"
    by (auto simp: cleaned_def list_all_iff filter_id_conv dest: numch_not_space)
  from assms(2) s have c: "is_numch c"
    and tw: "takeWhile is_numch cs = cs" and dw: "dropWhile is_numch cs = []"
    by (auto simp: list_all_iff)
  from assms(3) s have "\<not> 2 < length (filter (\<lambda>c. c = CHR ''.'') (c # cs)) + 1"
    by simp
  then have "tokenize_loop [] (c # cs) = Inr [mk TNumber (c # cs)]"
    using c by (simp add: tw dw del: filter.simps)
  with cl s show ?thesis
    by (simp add: tokenize_def)
qed

text \<open>
  C10. A nonempty text made only of digits and dots, with at most one dot, is
  accepted as one number token with that text; no digit is asked for. So the text
  \<^verbatim>\<open>.\<close> gives the single number token \<^verbatim>\<open>.\<close>, which \<^verbatim>\<open>Number\<close> reads as NaN, and
  evaluating \<^verbatim>\<open>.\<close> returns NaN without an error.
\<close>

theorem tokenize_number_without_digit:
  assumes "s \<noteq> []" and "list_all is_numch s" and "length (filter (\<lambda>c. c = CHR ''.'') s) \<le> 1"
  shows "tokenize s = Inr [mk TNumber s] \<and>
         tokenize ''.'' = Inr [mk TNumber ''.''] \<and>
         Number H ''.'' = NaN \<and> evaluate H ''.'' = Inr (Num NaN)"
proof -
  have gen: "tokenize s = Inr [mk TNumber s]"
    using assms by (rule tokenize_numeric_text)
  have dot: "tokenize ''.'' = Inr [mk TNumber ''.'']"
    by (simp add: lex_defs)
  have nan: "Number H ''.'' = NaN"
    by (simp add: num_defs is_numch_def is_digit_def)
  from gen dot nan show ?thesis
    by (simp add: evaluate_dot)
qed

theorem tokenize_number_without_digit_witness:
  "tokenize ''3.14'' = Inr [mk TNumber ''3.14''] \<and> tokenize ''..'' = Inl InvalidNumberFormat"
proof -
  have "tokenize ''3.14'' = Inr [mk TNumber ''3.14'']"
    using tokenize_number_without_digit [of "''3.14''"]
    by (simp add: is_numch_def is_digit_def)
  moreover have "tokenize ''..'' = Inl InvalidNumberFormat"
    by (simp add: lex_defs)
  ultimately show ?thesis by simp
qed

subsection \<open>The errors of the postfix evaluator\<close>

text \<open>
  The loop fails with \<open>e\<close> exactly when some token, met on the stack that the tokens
  before it leave, throws \<open>e\<close>.
\<close>

lemma run_rpn_Inl_iff:
  "run_rpn H st rpn = Inl e \<longleftrightarrow>
     (\<exists>pre t post st'. rpn = pre @ t # post \<and> run_rpn H st pre = Inr st' \<and>
        rpn_step H st' t = Inl e)"
proof (induction rpn arbitrary: st)
  case Nil
  then show ?case by simp
next
  case (Cons x rpn)
  show ?case
  proof (cases "rpn_step H st x")
    case (Inl e')
    have "(\<exists>pre t post st'. x # rpn = pre @ t # post \<and> run_rpn H st pre = Inr st' \<and>
        rpn_step H st' t = Inl e) \<longleftrightarrow> e' = e"
    proof
      assume "\<exists>pre t post st'. x # rpn = pre @ t # post \<and> run_rpn H st pre = Inr st' \<and>
        rpn_step H st' t = Inl e"
      then obtain pre t post st' where eq: "x # rpn = pre @ t # post"
        and run: "run_rpn H st pre = Inr st'" and step: "rpn_step H st' t = Inl e"
        by blast
      show "e' = e"
      proof (cases pre)
        case Nil
        with eq run step Inl show ?thesis by simp
      next
        case (Cons y ys)
        with eq run Inl show ?thesis by simp
      qed
    next
      assume "e' = e"
      with Inl have "x # rpn = [] @ x # rpn \<and> run_rpn H st [] = Inr st \<and> rpn_step H st x = Inl e"
        by simp
      then show "\<exists>pre t post st'. x # rpn = pre @ t # post \<and> run_rpn H st pre = Inr st' \<and>
        rpn_step H st' t = Inl e"
        by blast
    qed
    with Inl show ?thesis by simp
  next
    case (Inr st1)
    have "(\<exists>pre t post st'. x # rpn = pre @ t # post \<and> run_rpn H st pre = Inr st' \<and>
        rpn_step H st' t = Inl e) \<longleftrightarrow>
      (\<exists>pre t post st'. rpn = pre @ t # post \<and> run_rpn H st1 pre = Inr st' \<and>
        rpn_step H st' t = Inl e)"
    proof
      assume "\<exists>pre t post st'. x # rpn = pre @ t # post \<and> run_rpn H st pre = Inr st' \<and>
        rpn_step H st' t = Inl e"
      then obtain pre t post st' where eq: "x # rpn = pre @ t # post"
        and run: "run_rpn H st pre = Inr st'" and step: "rpn_step H st' t = Inl e"
        by blast
      show "\<exists>pre t post st'. rpn = pre @ t # post \<and> run_rpn H st1 pre = Inr st' \<and>
        rpn_step H st' t = Inl e"
      proof (cases pre)
        case Nil
        with eq run step Inr show ?thesis by simp
      next
        case (Cons y ys)
        with eq run Inr have "rpn = ys @ t # post \<and> run_rpn H st1 ys = Inr st'"
          by simp
        with step show ?thesis by blast
      qed
    next
      assume "\<exists>pre t post st'. rpn = pre @ t # post \<and> run_rpn H st1 pre = Inr st' \<and>
        rpn_step H st' t = Inl e"
      then obtain pre t post st' where eq: "rpn = pre @ t # post"
        and run: "run_rpn H st1 pre = Inr st'" and step: "rpn_step H st' t = Inl e"
        by blast
      from eq run Inr have "x # rpn = (x # pre) @ t # post \<and> run_rpn H st (x # pre) = Inr st'"
        by simp
      with step show "\<exists>pre t post st'. x # rpn = pre @ t # post \<and>
        run_rpn H st pre = Inr st' \<and> rpn_step H st' t = Inl e"
        by blast
    qed
    with Inr Cons.IH [of st1] show ?thesis by simp
  qed
qed

lemma evaluateRPN_Inl_iff:
  assumes "e \<noteq> InvalidExpression"
  shows "evaluateRPN H rpn = Inl e \<longleftrightarrow> run_rpn H [] rpn = Inl e"
  using assms by (auto simp: evaluateRPN_def split: sum.splits)

text \<open>What one token throws, by the error.\<close>

lemma apply_op_Inl:
  "apply_op H v a b = Inl e \<longleftrightarrow>
     (v = ''/'' \<and> eq_zero b \<and> e = DivisionByZero) \<or>
     (v \<notin> {''+'', ''-'', ''*'', ''/'', ''^''} \<and> e = UnknownOperator)"
  by (auto simp: apply_op_def)

lemma apply_fn_Inl:
  "apply_fn H v a = Inl e \<longleftrightarrow>
     (v = ''log'' \<and> le_zero a \<and> e = LogDomainError) \<or>
     (v = ''ln'' \<and> le_zero a \<and> e = LnDomainError) \<or>
     (v = ''sqrt'' \<and> lt_zero a \<and> e = SqrtDomainError) \<or>
     (v \<notin> {''sin'', ''cos'', ''tan'', ''log'', ''ln'', ''sqrt''} \<and> e = UnknownFunction)"
  by (auto simp: apply_fn_def)

lemma rpn_step_op:
  assumes "type t = TOp"
  shows "rpn_step H st t = Inl e \<longleftrightarrow>
     (e = InvalidExpression \<and> (length st < 2 \<or> Undefined \<in> set (take 2 st))) \<or>
     (\<exists>b a rest. st = b # a # rest \<and> a \<noteq> Undefined \<and> b \<noteq> Undefined \<and>
        apply_op H (val t) a b = Inl e)"
proof (cases st)
  case Nil
  with assms show ?thesis by (auto simp: rpn_step_def)
next
  case (Cons b st1)
  show ?thesis
  proof (cases st1)
    case Nil
    with Cons assms show ?thesis by (auto simp: rpn_step_def)
  next
    case (Cons a rest)
    with \<open>st = b # st1\<close> assms show ?thesis
      by (auto simp: rpn_step_def split: sum.splits)
  qed
qed

lemma rpn_step_fn:
  assumes "type t = TFn"
  shows "rpn_step H st t = Inl e \<longleftrightarrow>
     (e = InvalidFunctionCall \<and> (st = [] \<or> hd st = Undefined)) \<or>
     (\<exists>a rest. st = a # rest \<and> a \<noteq> Undefined \<and> apply_fn H (val t) a = Inl e)"
proof (cases st)
  case Nil
  with assms show ?thesis by (auto simp: rpn_step_def)
next
  case (Cons a rest)
  with assms show ?thesis
    by (auto simp: rpn_step_def split: sum.splits)
qed

lemma rpn_step_other:
  assumes "type t \<noteq> TOp" and "type t \<noteq> TFn"
  shows "rpn_step H st t \<noteq> Inl e"
  using assms by (auto simp: rpn_step_def)

lemma rpn_step_DivisionByZero:
  "rpn_step H st t = Inl DivisionByZero \<longleftrightarrow>
     type t = TOp \<and> val t = ''/'' \<and>
     (\<exists>b a rest. st = b # a # rest \<and> a \<noteq> Undefined \<and> eq_zero b)"
proof (cases "type t = TOp")
  case True
  then show ?thesis
    by (auto simp: rpn_step_op apply_op_Inl eq_zero_def)
next
  case False
  then show ?thesis
    by (cases "type t = TFn") (auto simp: rpn_step_fn apply_fn_Inl rpn_step_other)
qed

lemma le_zero_defined: "le_zero a \<Longrightarrow> a \<noteq> Undefined"
  by auto

lemma lt_zero_defined: "lt_zero a \<Longrightarrow> a \<noteq> Undefined"
  by auto

lemma rpn_step_domain:
  "rpn_step H st t = Inl LogDomainError \<longleftrightarrow>
     type t = TFn \<and> val t = ''log'' \<and> (\<exists>a rest. st = a # rest \<and> le_zero a)"
  "rpn_step H st t = Inl LnDomainError \<longleftrightarrow>
     type t = TFn \<and> val t = ''ln'' \<and> (\<exists>a rest. st = a # rest \<and> le_zero a)"
  "rpn_step H st t = Inl SqrtDomainError \<longleftrightarrow>
     type t = TFn \<and> val t = ''sqrt'' \<and> (\<exists>a rest. st = a # rest \<and> lt_zero a)"
proof -
  have fn: "type t \<noteq> TFn \<Longrightarrow> rpn_step H st t \<noteq> Inl e"
    if "e \<in> {LogDomainError, LnDomainError, SqrtDomainError}" for e
    using that by (cases "type t = TOp") (auto simp: rpn_step_op apply_op_Inl rpn_step_other)
  show "rpn_step H st t = Inl LogDomainError \<longleftrightarrow>
     type t = TFn \<and> val t = ''log'' \<and> (\<exists>a rest. st = a # rest \<and> le_zero a)"
    using fn [of LogDomainError]
    by (cases "type t = TFn") (auto simp: rpn_step_fn apply_fn_Inl dest: le_zero_defined)
  show "rpn_step H st t = Inl LnDomainError \<longleftrightarrow>
     type t = TFn \<and> val t = ''ln'' \<and> (\<exists>a rest. st = a # rest \<and> le_zero a)"
    using fn [of LnDomainError]
    by (cases "type t = TFn") (auto simp: rpn_step_fn apply_fn_Inl dest: le_zero_defined)
  show "rpn_step H st t = Inl SqrtDomainError \<longleftrightarrow>
     type t = TFn \<and> val t = ''sqrt'' \<and> (\<exists>a rest. st = a # rest \<and> lt_zero a)"
    using fn [of SqrtDomainError]
    by (cases "type t = TFn") (auto simp: rpn_step_fn apply_fn_Inl dest: lt_zero_defined)
qed

lemma evaluate_log_0: "evaluate H ''log(0)'' = Inl LogDomainError"
  by (simp add: parser_defs)

lemma evaluate_sqrt_0_minus_1: "evaluate H ''sqrt(0-1)'' = Inl SqrtDomainError"
  by (simp add: parser_defs)

lemma evaluate_ln_0_minus_5: "evaluate H ''ln(0-5)'' = Inl LnDomainError"
  by (simp add: parser_defs)

lemma evaluate_sqrt_minus_1: "evaluate H ''sqrt(-1)'' = Inl InvalidExpression"
  by (simp add: parser_defs)

lemma evaluate_ln_minus_5: "evaluate H ''ln(-5)'' = Inl InvalidExpression"
  by (simp add: parser_defs)

text \<open>
  C2, as the claim states it, has \<^verbatim>\<open>sqrt(-1)\<close> and \<^verbatim>\<open>ln(-5)\<close> fail by the domain guards
  of \<^verbatim>\<open>sqrt\<close> and \<^verbatim>\<open>ln\<close>. They fail, but with "Invalid expression": \<^verbatim>\<open>-\<close> is a binary
  operator only, it finds one value on the stack, and the function is never reached.
\<close>

theorem unary_minus_argument_is_no_domain_error:
  "\<forall>H. evaluate H ''sqrt(-1)'' = Inl InvalidExpression \<and>
       evaluate H ''sqrt(-1)'' \<noteq> Inl SqrtDomainError \<and>
       evaluate H ''ln(-5)'' = Inl InvalidExpression \<and>
       evaluate H ''ln(-5)'' \<noteq> Inl LnDomainError"
  by (simp add: evaluate_sqrt_minus_1 evaluate_ln_minus_5)

text \<open>
  C2, amended. For every postfix token sequence \<open>rpn\<close> and every host:
  \<^item> the evaluator fails with "Division by zero" exactly when some token \<^verbatim>\<open>/\<close> of type
    operator is met with two values on the stack of which the upper one (the right
    operand) is \<^verbatim>\<open>=== 0\<close>;
  \<^item> it fails with the domain error of \<^verbatim>\<open>log\<close>, of \<^verbatim>\<open>ln\<close> or of \<^verbatim>\<open>sqrt\<close> exactly when a
    function token of that name is met with a top of stack that is \<^verbatim>\<open><= 0\<close> (for
    \<^verbatim>\<open>log\<close> and \<^verbatim>\<open>ln\<close>) or \<^verbatim>\<open>< 0\<close> (for \<^verbatim>\<open>sqrt\<close>);
  \<^item> it fails with "Invalid expression" when an operator token is met with fewer than
    two values on the stack, with "Invalid function call" when a function token is met
    with an empty stack, and with "Invalid expression" when the tokens leave a stack
    whose size is not 1.
  So \<^verbatim>\<open>5/0\<close> fails with "Division by zero", \<^verbatim>\<open>log(0)\<close>, \<^verbatim>\<open>sqrt(0-1)\<close> and \<^verbatim>\<open>ln(0-5)\<close> with
  their domain errors, and \<^verbatim>\<open>sqrt(-1)\<close> and \<^verbatim>\<open>ln(-5)\<close> with "Invalid expression".
\<close>

theorem evaluateRPN_errors:
  "(evaluateRPN H rpn = Inl DivisionByZero \<longleftrightarrow>
      (\<exists>pre t post b a st. rpn = pre @ t # post \<and> run_rpn H [] pre = Inr (b # a # st) \<and>
         type t = TOp \<and> val t = ''/'' \<and> a \<noteq> Undefined \<and> eq_zero b)) \<and>
   (evaluateRPN H rpn = Inl LogDomainError \<longleftrightarrow>
      (\<exists>pre t post a st. rpn = pre @ t # post \<and> run_rpn H [] pre = Inr (a # st) \<and>
         type t = TFn \<and> val t = ''log'' \<and> le_zero a)) \<and>
   (evaluateRPN H rpn = Inl LnDomainError \<longleftrightarrow>
      (\<exists>pre t post a st. rpn = pre @ t # post \<and> run_rpn H [] pre = Inr (a # st) \<and>
         type t = TFn \<and> val t = ''ln'' \<and> le_zero a)) \<and>
   (evaluateRPN H rpn = Inl SqrtDomainError \<longleftrightarrow>
      (\<exists>pre t post a st. rpn = pre @ t # post \<and> run_rpn H [] pre = Inr (a # st) \<and>
         type t = TFn \<and> val t = ''sqrt'' \<and> lt_zero a)) \<and>
   (rpn = pre1 @ t1 # post1 \<and> run_rpn H [] pre1 = Inr st1 \<and> type t1 = TOp \<and> length st1 < 2
      \<longrightarrow> evaluateRPN H rpn = Inl InvalidExpression) \<and>
   (rpn = pre2 @ t2 # post2 \<and> run_rpn H [] pre2 = Inr [] \<and> type t2 = TFn
      \<longrightarrow> evaluateRPN H rpn = Inl InvalidFunctionCall) \<and>
   (run_rpn H [] rpn = Inr st3 \<and> length st3 \<noteq> 1
      \<longrightarrow> evaluateRPN H rpn = Inl InvalidExpression) \<and>
   evaluate H ''5/0'' = Inl DivisionByZero \<and>
   evaluate H ''log(0)'' = Inl LogDomainError \<and>
   evaluate H ''sqrt(0-1)'' = Inl SqrtDomainError \<and>
   evaluate H ''ln(0-5)'' = Inl LnDomainError \<and>
   evaluate H ''sqrt(-1)'' = Inl InvalidExpression \<and>
   evaluate H ''ln(-5)'' = Inl InvalidExpression"
proof -
  have dz: "evaluateRPN H rpn = Inl DivisionByZero \<longleftrightarrow>
      (\<exists>pre t post b a st. rpn = pre @ t # post \<and> run_rpn H [] pre = Inr (b # a # st) \<and>
         type t = TOp \<and> val t = ''/'' \<and> a \<noteq> Undefined \<and> eq_zero b)"
    by (simp add: evaluateRPN_Inl_iff run_rpn_Inl_iff rpn_step_DivisionByZero) blast
  have lg: "evaluateRPN H rpn = Inl LogDomainError \<longleftrightarrow>
      (\<exists>pre t post a st. rpn = pre @ t # post \<and> run_rpn H [] pre = Inr (a # st) \<and>
         type t = TFn \<and> val t = ''log'' \<and> le_zero a)"
    by (simp add: evaluateRPN_Inl_iff run_rpn_Inl_iff rpn_step_domain) blast
  have ln: "evaluateRPN H rpn = Inl LnDomainError \<longleftrightarrow>
      (\<exists>pre t post a st. rpn = pre @ t # post \<and> run_rpn H [] pre = Inr (a # st) \<and>
         type t = TFn \<and> val t = ''ln'' \<and> le_zero a)"
    by (simp add: evaluateRPN_Inl_iff run_rpn_Inl_iff rpn_step_domain) blast
  have sq: "evaluateRPN H rpn = Inl SqrtDomainError \<longleftrightarrow>
      (\<exists>pre t post a st. rpn = pre @ t # post \<and> run_rpn H [] pre = Inr (a # st) \<and>
         type t = TFn \<and> val t = ''sqrt'' \<and> lt_zero a)"
    by (simp add: evaluateRPN_Inl_iff run_rpn_Inl_iff rpn_step_domain) blast
  have op: "rpn = pre1 @ t1 # post1 \<and> run_rpn H [] pre1 = Inr st1 \<and> type t1 = TOp \<and>
      length st1 < 2 \<longrightarrow> evaluateRPN H rpn = Inl InvalidExpression"
    by (auto simp: evaluateRPN_def run_rpn_append rpn_step_op_underflow)
  have fn: "rpn = pre2 @ t2 # post2 \<and> run_rpn H [] pre2 = Inr [] \<and> type t2 = TFn
      \<longrightarrow> evaluateRPN H rpn = Inl InvalidFunctionCall"
    by (auto simp: evaluateRPN_def run_rpn_append rpn_step_def)
  have fin: "run_rpn H [] rpn = Inr st3 \<and> length st3 \<noteq> 1
      \<longrightarrow> evaluateRPN H rpn = Inl InvalidExpression"
    by (auto simp: evaluateRPN_def)
  show ?thesis
    by (intro conjI) (rule dz lg ln sq op fn fin evaluate_5_div_0 evaluate_log_0
        evaluate_sqrt_0_minus_1 evaluate_ln_0_minus_5 evaluate_sqrt_minus_1
        evaluate_ln_minus_5)+
qed

theorem evaluateRPN_errors_witness:
  "\<forall>H. evaluateRPN H [mk TNumber ''5'', mk TNumber ''0'', mk TOp ''/''] = Inl DivisionByZero \<and>
       evaluateRPN H [mk TNumber ''0'', mk TFn ''log''] = Inl LogDomainError \<and>
       evaluateRPN H [mk TOp ''+''] = Inl InvalidExpression \<and>
       evaluateRPN H [mk TFn ''sin''] = Inl InvalidFunctionCall \<and>
       evaluateRPN H [] = Inl InvalidExpression"
proof
  fix H :: host
  have n0: "Number H ''0'' = Fin 0"
    by (simp add: num_defs is_numch_def is_digit_def)
  let ?d = "[mk TNumber ''5'', mk TNumber ''0'', mk TOp ''/'']"
  have "?d = [mk TNumber ''5'', mk TNumber ''0''] @ mk TOp ''/'' # [] \<and>
        run_rpn H [] [mk TNumber ''5'', mk TNumber ''0''] =
          Inr (Num (Fin 0) # Num (Number H ''5'') # []) \<and>
        type (mk TOp ''/'') = TOp \<and> val (mk TOp ''/'') = ''/'' \<and>
        Num (Number H ''5'') \<noteq> Undefined \<and> eq_zero (Num (Fin 0))"
    by (simp add: rpn_step_def mk_def n0 eq_zero_def)
  then have "\<exists>pre t post b a st. ?d = pre @ t # post \<and> run_rpn H [] pre = Inr (b # a # st) \<and>
         type t = TOp \<and> val t = ''/'' \<and> a \<noteq> Undefined \<and> eq_zero b"
    by (intro exI)
  with evaluateRPN_errors [of H ?d]
  have w1: "evaluateRPN H ?d = Inl DivisionByZero"
    by (simp only:)
  let ?l = "[mk TNumber ''0'', mk TFn ''log'']"
  have "?l = [mk TNumber ''0''] @ mk TFn ''log'' # [] \<and>
        run_rpn H [] [mk TNumber ''0''] = Inr (Num (Fin 0) # []) \<and>
        type (mk TFn ''log'') = TFn \<and> val (mk TFn ''log'') = ''log'' \<and> le_zero (Num (Fin 0))"
    by (simp add: rpn_step_def mk_def n0)
  then have "\<exists>pre t post a st. ?l = pre @ t # post \<and> run_rpn H [] pre = Inr (a # st) \<and>
         type t = TFn \<and> val t = ''log'' \<and> le_zero a"
    by (intro exI)
  with evaluateRPN_errors [of H ?l]
  have w2: "evaluateRPN H ?l = Inl LogDomainError"
    by (simp only:)
  have w3: "evaluateRPN H [mk TOp ''+''] = Inl InvalidExpression"
    using evaluateRPN_errors [of H "[mk TOp ''+'']" "[]" "mk TOp ''+''" "[]" "[]"]
    by (simp add: mk_def)
  have w4: "evaluateRPN H [mk TFn ''sin''] = Inl InvalidFunctionCall"
    using evaluateRPN_errors [of H "[mk TFn ''sin'']" _ _ _ _ "[]" "mk TFn ''sin''" "[]"]
    by (simp add: mk_def)
  have w5: "evaluateRPN H [] = Inl InvalidExpression"
    using evaluateRPN_errors [of H "[]" _ _ _ _ _ _ _ "[]"]
    by simp
  show "evaluateRPN H ?d = Inl DivisionByZero \<and>
       evaluateRPN H ?l = Inl LogDomainError \<and>
       evaluateRPN H [mk TOp ''+''] = Inl InvalidExpression \<and>
       evaluateRPN H [mk TFn ''sin''] = Inl InvalidFunctionCall \<and>
       evaluateRPN H [] = Inl InvalidExpression"
    by (intro conjI) (rule w1 w2 w3 w4 w5)+
qed

subsection \<open>Parentheses in the shunting-yard transformation\<close>

lemma parens_append [simp]: "parens (xs @ ys) = parens xs @ parens ys"
  by (simp add: parens_def)

lemma parens_Cons:
  "parens (t # ts) = (if type t = TParen then t # parens ts else parens ts)"
  by (simp add: parens_def)

lemma parens_Nil [simp]: "parens [] = []"
  by (simp add: parens_def)

text \<open>The loop of an operator token moves function and operator tokens only.\<close>

lemma pop_for_op_parens:
  "pop_for_op lt t out ops = (out', ops') \<Longrightarrow> parens ops' = parens ops \<and> parens out' = parens out"
proof (induction ops arbitrary: out)
  case Nil
  then show ?case by simp
next
  case (Cons tp ops)
  show ?case
  proof (cases "type tp = TFn \<or> type tp = TOp \<and>
      (let p1 = PRECEDENCE (val tp); p2 = PRECEDENCE (val t) in
         (RIGHT_ASSOC_has (val t) \<and> prec_lt lt p2 p1) \<or>
         (\<not> RIGHT_ASSOC_has (val t) \<and> prec_le lt p2 p1))")
    case True
    with Cons.prems have "pop_for_op lt t (out @ [tp]) ops = (out', ops')"
      by (auto split: if_splits)
    from Cons.IH [OF this] True show ?thesis
      by (auto simp: parens_Cons)
  next
    case False
    with Cons.prems show ?thesis
      by (auto split: if_splits)
  qed
qed

text \<open>
  The loop of a closing parenthesis, on a stack whose parentheses are all opening
  ones: it fails when there is none, and else removes the topmost one and moves what
  lies above it, which holds no parenthesis.
\<close>

lemma pop_to_paren_parens:
  assumes "only_open ops"
  shows "case pop_to_paren out ops of
           None \<Rightarrow> parens ops = []
         | Some (out', ops') \<Rightarrow> parens out' = parens out \<and> (\<exists>p. parens ops = p # parens ops')"
  using assms
proof (induction ops arbitrary: out)
  case Nil
  then show ?case by simp
next
  case (Cons tp ops)
  show ?case
  proof (cases "type tp = TParen")
    case True
    with Cons.prems have "val tp = ''(''"
      by (simp add: only_open_def parens_Cons)
    with True show ?thesis
      by (simp add: parens_Cons)
  next
    case False
    with Cons.prems have "only_open ops"
      by (simp add: only_open_def parens_Cons)
    from Cons.IH [OF this, of "out @ [tp]"] False show ?thesis
      by (auto simp: parens_Cons split: option.splits)
  qed
qed

text \<open>What the final loop returns.\<close>

lemma drain_eq:
  "drain out ops = (if parens ops = [] then Inr (out @ ops) else Inl MismatchedParentheses)"
  by (induction ops arbitrary: out) (auto simp: parens_Cons)

text \<open>
  The \<^verbatim>\<open>for\<close> loop, against the nesting depth: started on a stack that holds \<open>n\<close>
  parentheses, all opening, it fails on the first unmatched closing parenthesis, and
  else ends with as many parentheses on the stack as are left open, and with no
  parenthesis added to the output.
\<close>

lemma toRPN_loop_depth:
  assumes "only_open ops"
  shows "case depth (length (parens ops)) ts of
           None \<Rightarrow> toRPN_loop lt out ops ts = Inl MismatchedParentheses
         | Some d \<Rightarrow> (\<exists>out' ops'. toRPN_loop lt out ops ts = Inr (out', ops') \<and>
              length (parens ops') = d \<and> only_open ops' \<and> parens out' = parens out)"
  using assms
proof (induction ts arbitrary: out ops)
  case Nil
  then show ?case by simp
next
  case (Cons t ts)
  note oo = \<open>only_open ops\<close>
  have next_state: ?case
    if step: "toRPN_loop lt out ops (t # ts) = toRPN_loop lt out2 ops2 ts"
      and dep: "depth (length (parens ops)) (t # ts) = depth (length (parens ops2)) ts"
      and po: "parens out2 = parens out"
      and oo2: "only_open ops2"
    for out2 ops2
    using Cons.IH [OF oo2, of out2] by (simp only: step dep po)
  consider (operand) "type t = TNumber \<or> type t = TConst"
    | (func) "type t = TFn"
    | (oper) "type t = TOp"
    | (lparen) "type t = TParen \<and> val t = ''(''"
    | (rparen) "type t = TParen \<and> val t \<noteq> ''(''"
    by (cases "type t") auto
  then show ?case
  proof cases
    case operand
    show ?thesis
    proof (rule next_state)
      show "toRPN_loop lt out ops (t # ts) = toRPN_loop lt (out @ [t]) ops ts"
        using operand by simp
      show "depth (length (parens ops)) (t # ts) = depth (length (parens ops)) ts"
        using operand by auto
      show "parens (out @ [t]) = parens out"
        using operand by (auto simp: parens_Cons)
    qed (rule oo)
  next
    case func
    show ?thesis
    proof (rule next_state)
      show "toRPN_loop lt out ops (t # ts) = toRPN_loop lt out (t # ops) ts"
        using func by simp
      show "depth (length (parens ops)) (t # ts) = depth (length (parens (t # ops))) ts"
        using func by (simp add: parens_Cons)
      show "only_open (t # ops)"
        using oo func by (simp add: only_open_def parens_Cons)
    qed simp
  next
    case oper
    obtain out1 ops1 where p: "pop_for_op lt t out ops = (out1, ops1)"
      by (cases "pop_for_op lt t out ops")
    from pop_for_op_parens [OF p] have eq: "parens ops1 = parens ops" "parens out1 = parens out"
      by simp_all
    show ?thesis
    proof (rule next_state)
      show "toRPN_loop lt out ops (t # ts) = toRPN_loop lt out1 (t # ops1) ts"
        using oper p by simp
      show "depth (length (parens ops)) (t # ts) = depth (length (parens (t # ops1))) ts"
        using oper eq by (simp add: parens_Cons)
      show "only_open (t # ops1)"
        using oo oper eq by (simp add: only_open_def parens_Cons)
    qed (rule eq)
  next
    case lparen
    show ?thesis
    proof (rule next_state)
      show "toRPN_loop lt out ops (t # ts) = toRPN_loop lt out (t # ops) ts"
        using lparen by simp
      show "depth (length (parens ops)) (t # ts) = depth (length (parens (t # ops))) ts"
        using lparen by (simp add: parens_Cons)
      show "only_open (t # ops)"
        using oo lparen by (simp add: only_open_def parens_Cons)
    qed simp
  next
    case rparen
    show ?thesis
    proof (cases "pop_to_paren out ops")
      case None
      with pop_to_paren_parens [OF oo, of out] have "parens ops = []"
        by simp
      with rparen None show ?thesis
        by simp
    next
      case (Some r)
      obtain out1 ops1 where r: "r = (out1, ops1)"
        by (cases r)
      with Some pop_to_paren_parens [OF oo, of out]
      obtain p where eq: "parens out1 = parens out" "parens ops = p # parens ops1"
        by auto
      with oo have oo1: "only_open ops1"
        by (simp add: only_open_def)
      from eq have len: "length (parens ops) = Suc (length (parens ops1))"
        by simp
      show ?thesis
      proof (cases "\<exists>tp ops2. ops1 = tp # ops2 \<and> type tp = TFn")
        case True
        then obtain tp ops2 where o: "ops1 = tp # ops2" "type tp = TFn"
          by blast
        show ?thesis
        proof (rule next_state)
          show "toRPN_loop lt out ops (t # ts) = toRPN_loop lt (out1 @ [tp]) ops2 ts"
            using o rparen Some r by simp
          show "depth (length (parens ops)) (t # ts) = depth (length (parens ops2)) ts"
            using rparen len o by (simp add: parens_Cons)
          show "parens (out1 @ [tp]) = parens out"
            using eq o by (simp add: parens_Cons)
          show "only_open ops2"
            using oo1 o by (simp add: only_open_def parens_Cons)
        qed
      next
        case False
        show ?thesis
        proof (rule next_state)
          show "toRPN_loop lt out ops (t # ts) = toRPN_loop lt out1 ops1 ts"
            using False rparen Some r by (cases ops1) auto
          show "depth (length (parens ops)) (t # ts) = depth (length (parens ops1)) ts"
            using rparen len by simp
        qed (rule eq oo1)+
      qed
    qed
  qed
qed

lemma only_open_Nil: "only_open []"
  by (simp add: only_open_def)

lemma toRPN_depth:
  "case depth 0 ts of
     None \<Rightarrow> toRPN_loop lt [] [] ts = Inl MismatchedParentheses
   | Some d \<Rightarrow> (\<exists>out' ops'. toRPN_loop lt [] [] ts = Inr (out', ops') \<and>
        length (parens ops') = d \<and> parens out' = [])"
  using toRPN_loop_depth [OF only_open_Nil, where ts = ts and lt = lt and out = "[]"]
  by (auto split: option.splits)

lemma toRPN_Inl_iff: "toRPN lt ts = Inl e \<longleftrightarrow> e = MismatchedParentheses \<and> \<not> balanced ts"
  using toRPN_depth [where ts = ts and lt = lt]
  by (auto simp: toRPN_def balanced_def drain_eq split: option.splits if_splits)

lemma toRPN_Inr:
  assumes "toRPN lt ts = Inr out"
  shows "\<exists>out1 ops1. toRPN_loop lt [] [] ts = Inr (out1, ops1) \<and> parens out1 = [] \<and>
           parens ops1 = [] \<and> out = out1 @ ops1"
  using toRPN_depth [where ts = ts and lt = lt] assms
  by (auto simp: toRPN_def drain_eq split: option.splits if_splits)

lemma evaluate_unclosed: "evaluate H ''(1+2'' = Inl MismatchedParentheses"
  by (simp add: parser_defs)

lemma evaluate_unopened: "evaluate H ''1+2)'' = Inl MismatchedParentheses"
  by (simp add: parser_defs)

text \<open>
  C5. The postfix transformation fails exactly when the parentheses of its input are
  not balanced, and then with "Mismatched parentheses"; on a balanced input it
  returns a postfix sequence. An unmatched closing parenthesis makes the \<^verbatim>\<open>for\<close> loop
  fail; a parenthesis left open lets the loop end and makes the final loop fail.
  The texts \<^verbatim>\<open>(1+2\<close> and \<^verbatim>\<open>1+2)\<close> both fail with that error.
\<close>

theorem toRPN_fails_iff_unbalanced:
  "(toRPN lt ts = Inl MismatchedParentheses \<longleftrightarrow> \<not> balanced ts) \<and>
   (toRPN lt ts = Inl e \<longrightarrow> e = MismatchedParentheses) \<and>
   (balanced ts \<longleftrightarrow> (\<exists>out. toRPN lt ts = Inr out)) \<and>
   (depth 0 ts = None \<longrightarrow> toRPN_loop lt [] [] ts = Inl MismatchedParentheses) \<and>
   (depth 0 ts = Some (Suc d) \<longrightarrow>
      (\<exists>out ops. toRPN_loop lt [] [] ts = Inr (out, ops) \<and>
         drain out ops = Inl MismatchedParentheses)) \<and>
   message MismatchedParentheses = ''Mismatched parentheses'' \<and>
   evaluate H ''(1+2'' = Inl MismatchedParentheses \<and>
   evaluate H ''1+2)'' = Inl MismatchedParentheses"
proof -
  have a: "toRPN lt ts = Inl MismatchedParentheses \<longleftrightarrow> \<not> balanced ts"
    by (simp add: toRPN_Inl_iff)
  have b: "toRPN lt ts = Inl e \<longrightarrow> e = MismatchedParentheses"
    by (simp add: toRPN_Inl_iff)
  have c: "balanced ts \<longleftrightarrow> (\<exists>out. toRPN lt ts = Inr out)"
  proof (cases "toRPN lt ts")
    case (Inl e')
    then have "\<not> balanced ts"
      by (simp add: toRPN_Inl_iff)
    with Inl show ?thesis by simp
  next
    case (Inr out)
    have "toRPN lt ts \<noteq> Inl MismatchedParentheses"
      using Inr by simp
    then have "balanced ts"
      by (simp add: toRPN_Inl_iff)
    with Inr show ?thesis by simp
  qed
  have d: "depth 0 ts = None \<longrightarrow> toRPN_loop lt [] [] ts = Inl MismatchedParentheses"
    using toRPN_depth [where ts = ts and lt = lt] by auto
  have e: "depth 0 ts = Some (Suc d) \<longrightarrow>
      (\<exists>out ops. toRPN_loop lt [] [] ts = Inr (out, ops) \<and>
         drain out ops = Inl MismatchedParentheses)"
  proof
    assume "depth 0 ts = Some (Suc d)"
    with toRPN_depth [where ts = ts and lt = lt] obtain out ops
      where l: "toRPN_loop lt [] [] ts = Inr (out, ops)" and n: "length (parens ops) = Suc d"
      by auto
    from n have "parens ops \<noteq> []"
      by auto
    then have "drain out ops = Inl MismatchedParentheses"
      by (simp add: drain_eq)
    with l show "\<exists>out ops. toRPN_loop lt [] [] ts = Inr (out, ops) \<and>
         drain out ops = Inl MismatchedParentheses"
      by blast
  qed
  have f: "message MismatchedParentheses = ''Mismatched parentheses''"
    by simp
  show ?thesis
    by (intro conjI) (rule a b c d e f evaluate_unclosed evaluate_unopened)+
qed

theorem toRPN_fails_iff_unbalanced_witness:
  "\<forall>lt. toRPN lt [mk TParen ''('', mk TNumber ''1''] = Inl MismatchedParentheses \<and>
        toRPN lt [mk TNumber ''1'', mk TParen '')''] = Inl MismatchedParentheses \<and>
        (\<exists>out. toRPN lt [mk TParen ''('', mk TNumber ''1'', mk TParen '')''] = Inr out)"
proof
  fix lt :: "string \<Rightarrow> string \<Rightarrow> bool"
  have "depth 0 [mk TParen ''('', mk TNumber ''1''] = Some (Suc 0)"
    by (simp add: mk_def)
  then have w1: "toRPN lt [mk TParen ''('', mk TNumber ''1''] = Inl MismatchedParentheses"
    using toRPN_fails_iff_unbalanced [of lt "[mk TParen ''('', mk TNumber ''1'']"]
    by (simp add: balanced_def)
  have "depth 0 [mk TNumber ''1'', mk TParen '')''] = None"
    by (simp add: mk_def)
  then have w2: "toRPN lt [mk TNumber ''1'', mk TParen '')''] = Inl MismatchedParentheses"
    using toRPN_fails_iff_unbalanced [of lt "[mk TNumber ''1'', mk TParen '')'']"]
    by (simp add: balanced_def)
  have "depth 0 [mk TParen ''('', mk TNumber ''1'', mk TParen '')''] = Some 0"
    by (simp add: mk_def)
  then have w3: "\<exists>out. toRPN lt [mk TParen ''('', mk TNumber ''1'', mk TParen '')''] = Inr out"
    using toRPN_fails_iff_unbalanced
      [of lt "[mk TParen ''('', mk TNumber ''1'', mk TParen '')'']"]
    by (simp add: balanced_def)
  show "toRPN lt [mk TParen ''('', mk TNumber ''1''] = Inl MismatchedParentheses \<and>
        toRPN lt [mk TNumber ''1'', mk TParen '')''] = Inl MismatchedParentheses \<and>
        (\<exists>out. toRPN lt [mk TParen ''('', mk TNumber ''1'', mk TParen '')''] = Inr out)"
    by (intro conjI) (rule w1 w2 w3)+
qed

text \<open>
  C7. When the postfix transformation succeeds, its result holds no parenthesis
  token: the \<^verbatim>\<open>for\<close> loop ended with an output without parentheses and with no
  parenthesis left on the operator stack (each one pushed was discarded by a closing
  parenthesis), and the result is that output followed by the stack. The input was
  then balanced.
\<close>

theorem toRPN_output_has_no_parenthesis:
  assumes "toRPN lt ts = Inr out"
  shows "(\<forall>t \<in> set out. type t \<noteq> TParen) \<and> balanced ts \<and>
         (\<exists>out1 ops1. toRPN_loop lt [] [] ts = Inr (out1, ops1) \<and> no_paren out1 \<and>
            no_paren ops1 \<and> out = out1 @ ops1)"
proof -
  from toRPN_Inr [OF assms] obtain out1 ops1
    where l: "toRPN_loop lt [] [] ts = Inr (out1, ops1)"
      and p: "parens out1 = []" "parens ops1 = []" and o: "out = out1 @ ops1"
    by blast
  from p o have "parens out = []"
    by simp
  then have "\<forall>t \<in> set out. type t \<noteq> TParen"
    by (simp add: parens_def filter_empty_conv)
  moreover have "balanced ts"
    using assms toRPN_Inl_iff [of lt ts MismatchedParentheses] by simp
  moreover have "\<exists>out1 ops1. toRPN_loop lt [] [] ts = Inr (out1, ops1) \<and> no_paren out1 \<and>
            no_paren ops1 \<and> out = out1 @ ops1"
    using l p o by (simp add: no_paren_def)
  ultimately show ?thesis by simp
qed

lemma toRPN_parenthesised_sum:
  "toRPN lt [mk TParen ''('', mk TNumber ''2'', mk TOp ''+'', mk TNumber ''3'', mk TParen '')'',
       mk TOp ''*'', mk TNumber ''4''] =
     Inr [mk TNumber ''2'', mk TNumber ''3'', mk TOp ''+'', mk TNumber ''4'', mk TOp ''*'']"
  by (simp add: rpn_defs mk_def)

theorem toRPN_output_has_no_parenthesis_witness:
  "\<forall>lt. toRPN lt [mk TParen ''('', mk TNumber ''2'', mk TOp ''+'', mk TNumber ''3'',
           mk TParen '')'', mk TOp ''*'', mk TNumber ''4''] =
         Inr [mk TNumber ''2'', mk TNumber ''3'', mk TOp ''+'', mk TNumber ''4'', mk TOp ''*''] \<and>
        list_all (\<lambda>t. type t \<noteq> TParen)
          [mk TNumber ''2'', mk TNumber ''3'', mk TOp ''+'', mk TNumber ''4'', mk TOp ''*''] \<and>
        balanced [mk TParen ''('', mk TNumber ''2'', mk TOp ''+'', mk TNumber ''3'',
           mk TParen '')'', mk TOp ''*'', mk TNumber ''4'']"
proof
  fix lt :: "string \<Rightarrow> string \<Rightarrow> bool"
  let ?ts = "[mk TParen ''('', mk TNumber ''2'', mk TOp ''+'', mk TNumber ''3'',
           mk TParen '')'', mk TOp ''*'', mk TNumber ''4'']"
  let ?out = "[mk TNumber ''2'', mk TNumber ''3'', mk TOp ''+'', mk TNumber ''4'', mk TOp ''*'']"
  have r: "toRPN lt ?ts = Inr ?out"
    by (rule toRPN_parenthesised_sum)
  from toRPN_output_has_no_parenthesis [OF r]
  have "(\<forall>t \<in> set ?out. type t \<noteq> TParen)" and "balanced ?ts"
    by blast+
  then have "list_all (\<lambda>t. type t \<noteq> TParen) ?out \<and> balanced ?ts"
    by (simp only: list_all_iff simp_thms)
  with r show "toRPN lt ?ts = Inr ?out \<and> list_all (\<lambda>t. type t \<noteq> TParen) ?out \<and> balanced ?ts"
    by (rule conjI)
qed

subsection \<open>Decimal digits\<close>

lemma digit_cases: "d < 10 \<Longrightarrow> d \<in> {0, 1, 2, 3, 4, 5, 6, 7, 8, 9::nat}"
  by auto

lemma digit_char_is_digit: "d < 10 \<Longrightarrow> is_digit (digit_char d)"
  by (drule digit_cases) (auto simp: is_digit_def digit_char_def)

lemma digit_val_digit_char: "d < 10 \<Longrightarrow> digit_val (digit_char d) = d"
  by (drule digit_cases) (auto simp: digit_val_def digit_char_def)

lemma digits_of_digits: "list_all is_digit (digits_of n)"
proof (induction n rule: digits_of.induct)
  case (1 n)
  show ?case
  proof (cases "n < 10")
    case True
    then show ?thesis by (simp add: digits_of.simps digit_char_is_digit)
  next
    case False
    with 1 show ?thesis
      by (subst digits_of.simps) (simp add: digit_char_is_digit)
  qed
qed

lemma nat_of_digits_snoc: "nat_of_digits (ds @ [c]) = 10 * nat_of_digits ds + digit_val c"
  by (simp add: nat_of_digits_def)

lemma nat_of_digits_append:
  "nat_of_digits (xs @ ys) = nat_of_digits xs * 10 ^ length ys + nat_of_digits ys"
proof (induction ys rule: rev_induct)
  case Nil
  then show ?case by (simp add: nat_of_digits_def)
next
  case (snoc y ys)
  have "nat_of_digits (xs @ ys @ [y]) = 10 * nat_of_digits (xs @ ys) + digit_val y"
    using nat_of_digits_snoc [of "xs @ ys" y] by simp
  with snoc show ?case
    by (simp add: nat_of_digits_snoc algebra_simps)
qed

lemma nat_of_digits_digits_of: "nat_of_digits (digits_of n) = n"
proof (induction n rule: digits_of.induct)
  case (1 n)
  show ?case
  proof (cases "n < 10")
    case True
    then show ?thesis
      by (simp add: digits_of.simps nat_of_digits_def digit_val_digit_char)
  next
    case False
    with 1 have "nat_of_digits (digits_of (n div 10)) = n div 10"
      by simp
    with False show ?thesis
      by (subst digits_of.simps) (simp add: nat_of_digits_snoc digit_val_digit_char)
  qed
qed

lemma length_digits_of:
  "10 ^ k \<le> n \<Longrightarrow> n < 10 ^ Suc k \<Longrightarrow> length (digits_of n) = Suc k"
proof (induction k arbitrary: n)
  case 0
  then show ?case by (simp add: digits_of.simps)
next
  case (Suc k)
  from Suc.prems have "\<not> n < 10"
    by (metis One_nat_def Suc_leI le_trans not_less one_le_numeral power_Suc0_right power_increasing zero_less_Suc)
  moreover from Suc.prems have "10 ^ k \<le> n div 10" "n div 10 < 10 ^ Suc k"
    by (simp_all add: less_mult_imp_div_less algebra_simps div_le_mono Suc_le_eq nat_less_iff)
  ultimately show ?case
    using Suc.IH [of "n div 10"] by (subst digits_of.simps) simp
qed

lemma nat_of_digits_zeros: "nat_of_digits (replicate k CHR ''0'') = 0"
proof (induction k)
  case 0
  then show ?case by (simp add: nat_of_digits_def)
next
  case (Suc k)
  have "replicate (Suc k) CHR ''0'' = replicate k CHR ''0'' @ [CHR ''0'']"
    by (simp add: replicate_append_same)
  with Suc show ?case
    by (simp only: nat_of_digits_snoc) (simp add: digit_val_def)
qed

subsection \<open>The decimal exponent and the twelve digits\<close>

lemma nlog_bounds:
  "2 \<le> b \<Longrightarrow> 1 \<le> n \<Longrightarrow> b ^ nlog b n \<le> n \<and> n < b ^ Suc (nlog b n)"
proof (induction b n rule: nlog.induct)
  case (1 b n)
  show ?case
  proof (cases "n < b")
    case True
    with "1.prems" show ?thesis by (simp add: nlog.simps)
  next
    case False
    with "1.prems" have d: "1 \<le> n div b"
      by (simp add: Suc_le_eq div_greater_zero_iff)
    from False "1.prems" have nl: "nlog b n = Suc (nlog b (n div b))"
      by (subst nlog.simps) simp
    from "1.IH" False "1.prems" d
    have ih: "b ^ nlog b (n div b) \<le> n div b" "n div b < b ^ Suc (nlog b (n div b))"
      by simp_all
    from ih(1) have "b * b ^ nlog b (n div b) \<le> b * (n div b)"
      by simp
    also have "\<dots> \<le> n"
      by simp
    finally have lo: "b ^ nlog b n \<le> n"
      by (simp add: nl)
    from ih(2) "1.prems" have "n < b ^ Suc (nlog b (n div b)) * b"
      by (simp add: div_less_iff_less_mult)
    then have hi: "n < b ^ Suc (nlog b n)"
      by (simp add: nl mult.commute)
    from lo hi show ?thesis ..
  qed
qed

lemma ipow_powi: "ipow b k = of_nat b powi k"
  by (simp add: ipow_def power_int_def power_one_over inverse_eq_divide)

lemma ilog_bounds:
  assumes b: "2 \<le> b" and q: "0 < q"
  shows "ipow b (ilog b q) \<le> q \<and> q < ipow b (ilog b q + 1)"
proof (cases "1 \<le> q")
  case True
  define f where "f = nat \<lfloor>q\<rfloor>"
  from True have f1: "1 \<le> f"
    by (simp add: f_def le_nat_iff le_floor_iff)
  from True have "0 \<le> \<lfloor>q\<rfloor>"
    by simp
  then have "(of_nat f :: rat) = of_int \<lfloor>q\<rfloor>"
    by (simp add: f_def)
  with floor_correct [of q] have fq: "of_nat f \<le> q" "q < of_nat f + 1"
    by simp_all
  from nlog_bounds [OF b f1] have lo: "b ^ nlog b f \<le> f" and hi: "f + 1 \<le> b ^ Suc (nlog b f)"
    by simp_all
  from True have il: "ilog b q = int (nlog b f)"
    by (simp add: ilog_def f_def)
  have "ipow b (ilog b q) = of_nat (b ^ nlog b f)"
    by (simp add: il ipow_def)
  also have "\<dots> \<le> of_nat f"
    using lo by (simp only: of_nat_le_iff)
  finally have 1: "ipow b (ilog b q) \<le> q"
    using fq(1) by simp
  have "q < of_nat (f + 1)"
    using fq(2) by simp
  also have "\<dots> \<le> of_nat (b ^ Suc (nlog b f))"
    using hi by (simp only: of_nat_le_iff)
  also have "\<dots> = ipow b (ilog b q + 1)"
    by (simp add: il ipow_def nat_add_distrib)
  finally show ?thesis
    using 1 by simp
next
  case False
  define r where "r = 1 / q"
  define m where "m = nat \<lceil>r\<rceil>"
  from False q have r1: "1 < r"
    by (simp add: r_def)
  then have c2: "2 \<le> \<lceil>r\<rceil>"
    by (simp add: le_ceiling_iff)
  then have m2: "2 \<le> m"
    unfolding m_def by linarith
  from c2 have mi: "int m = \<lceil>r\<rceil>"
    unfolding m_def by linarith
  have mc: "(of_nat m :: rat) = of_int \<lceil>r\<rceil>"
    using arg_cong [OF mi, of of_int] by simp
  have mr: "r \<le> of_nat m" "of_nat (m - 1) < r"
  proof -
    show "r \<le> of_nat m"
      by (simp add: mc)
    from m2 have "(of_nat (m - 1) :: rat) = of_nat m - 1"
      by (simp add: of_nat_diff)
    then show "of_nat (m - 1) < r"
      using ceiling_correct [of r] by (simp add: mc)
  qed
  define j where "j = nlog b (m - 1)"
  from m2 have "1 \<le> m - 1"
    by simp
  from nlog_bounds [OF b this] have lo: "b ^ j \<le> m - 1" and hi': "m - 1 < b ^ Suc j"
    by (simp_all add: j_def)
  from hi' have hi: "m \<le> b ^ Suc j"
    by linarith
  from False m2 have il: "ilog b q = - int (Suc j)"
    by (simp add: ilog_def m_def r_def j_def Let_def)
  from b have bpos: "(0::rat) < of_nat b"
    by simp
  have "r \<le> of_nat (b ^ Suc j)"
    using mr(1) hi by (meson of_nat_le_iff order_trans)
  then have "1 / q \<le> of_nat b ^ Suc j"
    by (simp add: r_def)
  with q bpos have "1 / of_nat b ^ Suc j \<le> q"
    by (simp add: field_simps)
  moreover have "nat (int j + 1) = Suc j"
    by linarith
  ultimately have 1: "ipow b (ilog b q) \<le> q"
    by (simp add: il ipow_def)
  have "(of_nat (b ^ j) :: rat) \<le> of_nat (m - 1)"
    using lo by (simp only: of_nat_le_iff)
  also note mr(2)
  finally have "of_nat b ^ j < 1 / q"
    by (simp add: r_def)
  with q bpos have "q < 1 / of_nat b ^ j"
    by (simp add: field_simps)
  moreover have "ipow b (ilog b q + 1) = 1 / of_nat b ^ j"
  proof -
    have "ilog b q + 1 = - int j"
      by (simp add: il)
    moreover have "ipow b (- int j) = 1 / of_nat b ^ j"
      by (cases "j = 0") (simp_all add: ipow_def)
    ultimately show ?thesis
      by (simp only:)
  qed
  ultimately show ?thesis
    using 1 by simp
qed

text \<open>
  The digits and the exponent that \<^verbatim>\<open>toPrecision(12)\<close> takes for \<open>q > 0\<close>: a number \<open>n\<close>
  of exactly twelve digits, with \<open>n * 10 ^ (e - 11)\<close> within half a unit of the
  twelfth digit of \<open>q\<close>.
\<close>

lemma precision_digits_12:
  assumes q: "0 < q" and pd: "precision_digits 12 q = (m, e)"
  shows "\<exists>n. 10 ^ 11 \<le> n \<and> n < 10 ^ 12 \<and> m = digits_of n \<and>
           \<bar>of_nat n * ipow 10 (e - 11) - q\<bar> \<le> ipow 10 (e - 11) / 2"
proof -
  define e0 where "e0 = ilog 10 q"
  define u where "u = ipow 10 (e0 - 11)"
  define r where "r = q / u"
  define n0 where "n0 = nat \<lfloor>r + 1 / 2\<rfloor>"
  have upos: "0 < u"
    by (simp add: u_def ipow_powi)
  from ilog_bounds [of 10 q] q have b: "ipow 10 e0 \<le> q" "q < ipow 10 (e0 + 1)"
    by (simp_all add: e0_def)
  have "ipow 10 e0 = 10 ^ 11 * u"
    using power_int_add [of "10::rat" 11 "e0 - 11"] by (simp add: u_def ipow_powi)
  with b(1) upos have rlo: "10 ^ 11 \<le> r"
    by (simp add: r_def field_simps)
  have "ipow 10 (e0 + 1) = 10 ^ 12 * u"
    using power_int_add [of "10::rat" 12 "e0 - 11"] by (simp add: u_def ipow_powi add.commute)
  with b(2) upos have rhi: "r < 10 ^ 12"
    by (simp add: r_def field_simps)
  from rlo have fl: "0 \<le> \<lfloor>r + 1 / 2\<rfloor>"
    by simp
  then have n0r: "(of_nat n0 :: rat) = of_int \<lfloor>r + 1 / 2\<rfloor>"
    by (simp add: n0_def)
  have "(10 ^ 11 :: int) \<le> \<lfloor>r + 1 / 2\<rfloor>"
    using rlo by (simp add: le_floor_iff)
  then have n0lo: "10 ^ 11 \<le> n0"
    by (simp add: n0_def le_nat_iff)
  have "\<lfloor>r + 1 / 2\<rfloor> \<le> (10 ^ 12 :: int)"
    using rhi by (simp add: floor_le_iff)
  then have "n0 \<le> nat (10 ^ 12)"
    unfolding n0_def by (rule nat_mono)
  then have n0hi: "n0 \<le> 10 ^ 12"
    by simp
  have "of_int \<lfloor>r + 1 / 2\<rfloor> \<le> r + 1 / 2" and "r + 1 / 2 < of_int \<lfloor>r + 1 / 2\<rfloor> + 1"
    by linarith+
  then have close: "\<bar>of_nat n0 - r\<bar> \<le> 1 / 2"
    unfolding n0r by linarith
  have "of_nat n0 * u - q = (of_nat n0 - r) * u"
    using upos by (simp add: r_def left_diff_distrib)
  then have "\<bar>of_nat n0 * u - q\<bar> = \<bar>of_nat n0 - r\<bar> * u"
    using upos by (simp only: abs_mult abs_of_pos)
  with close upos have err: "\<bar>of_nat n0 * u - q\<bar> \<le> u / 2"
    by (simp add: mult_right_mono)
  from q pd have pd': "(n0 = 10 ^ 12 \<longrightarrow> m = digits_of (10 ^ 11) \<and> e = e0 + 1) \<and>
      (n0 \<noteq> 10 ^ 12 \<longrightarrow> m = digits_of n0 \<and> e = e0)"
    by (auto simp: precision_digits_def Let_def n0_def r_def u_def e0_def split: if_splits)
  show ?thesis
  proof (cases "n0 = 10 ^ 12")
    case True
    with pd' have me: "m = digits_of (10 ^ 11)" "e = e0 + 1"
      by simp_all
    have "ipow 10 (e - 11) = 10 * u"
      using power_int_add [of "10::rat" 1 "e0 - 11"] by (simp add: me u_def ipow_powi add.commute)
    with err True upos
    have "\<bar>of_nat (10 ^ 11) * ipow 10 (e - 11) - q\<bar> \<le> ipow 10 (e - 11) / 2"
      by simp
    with me show ?thesis
      by (intro exI [of _ "10 ^ 11"]) simp
  next
    case False
    with pd' have me: "m = digits_of n0" "e = e0"
      by simp_all
    from False n0hi have "n0 < 10 ^ 12"
      by simp
    with n0lo me err show ?thesis
      by (intro exI [of _ n0]) (simp add: u_def)
  qed
qed

subsection \<open>The two replacements of the number formatting\<close>

text \<open>A replacement leaves the text alone when the expression matches at no position.\<close>

lemma replace_suffix_none:
  assumes "\<And>a b. s = a @ b \<Longrightarrow> b \<noteq> [] \<Longrightarrow> \<not> M (pre @ a) b"
  shows "replace_suffix M pre s = pre @ s"
  using assms
proof (induction s arbitrary: pre)
  case Nil
  then show ?case by simp
next
  case (Cons c cs)
  from Cons.prems [of "[]" "c # cs"] have "\<not> M pre (c # cs)"
    by simp
  moreover have "replace_suffix M (pre @ [c]) cs = (pre @ [c]) @ cs"
  proof (rule Cons.IH)
    fix a b
    assume "cs = a @ b" and "b \<noteq> []"
    with Cons.prems [of "c # a" b] show "\<not> M ((pre @ [c]) @ a) b"
      by simp
  qed
  ultimately show ?case by simp
qed

text \<open>It cuts the text at the first position where the expression matches.\<close>

lemma replace_suffix_first:
  assumes "M (pre @ a) b" and "b \<noteq> []"
    and "\<And>a1 a2. a = a1 @ a2 \<Longrightarrow> a2 \<noteq> [] \<Longrightarrow> \<not> M (pre @ a1) (a2 @ b)"
  shows "replace_suffix M pre (a @ b) = pre @ a"
  using assms
proof (induction a arbitrary: pre)
  case Nil
  then show ?case by (cases b) simp_all
next
  case (Cons x a)
  from Cons.prems(3) [of "[]" "x # a"] have "\<not> M pre (x # a @ b)"
    by simp
  moreover have "replace_suffix M (pre @ [x]) (a @ b) = (pre @ [x]) @ a"
  proof (rule Cons.IH)
    show "M ((pre @ [x]) @ a) b"
      using Cons.prems(1) by simp
    show "b \<noteq> []"
      by (rule Cons.prems(2))
    fix a1 a2
    assume "a = a1 @ a2" and "a2 \<noteq> []"
    with Cons.prems(3) [of "x # a1" a2] show "\<not> M ((pre @ [x]) @ a1) (a2 @ b)"
      by simp
  qed
  ultimately show ?case by simp
qed

lemma dot_no_digit: "\<not> is_digit CHR ''.''"
  by (simp add: is_digit_def)

lemma digits_no_dot: "list_all is_digit s \<Longrightarrow> CHR ''.'' \<notin> set s"
  using dot_no_digit by (auto simp: list_all_iff)

lemma zeros_last: "zeros z \<Longrightarrow> last z = CHR ''0''"
  using last_in_set [of z] by (auto simp: zeros_def list_all_iff)

lemma zeros_replicate: "0 < k \<Longrightarrow> zeros (replicate k CHR ''0'')"
  by (simp add: zeros_def list_all_iff)

text \<open>Stripping the trailing zeros.\<close>

lemma strip_zeros_decomp: "\<exists>k. s = strip_zeros s @ replicate k CHR ''0''"
proof -
  let ?P = "\<lambda>c. c = CHR ''0''"
  have "rev s = takeWhile ?P (rev s) @ dropWhile ?P (rev s)"
    by simp
  then have "s = rev (dropWhile ?P (rev s)) @ rev (takeWhile ?P (rev s))"
    by (metis rev_append rev_rev_ident)
  moreover have "rev (takeWhile ?P (rev s)) = replicate (length (takeWhile ?P (rev s))) CHR ''0''"
    by (rule replicate_eqI) (auto dest: set_takeWhileD)
  ultimately show ?thesis
    unfolding strip_zeros_def by metis
qed

lemma strip_zeros_last: "strip_zeros s \<noteq> [] \<Longrightarrow> last (strip_zeros s) \<noteq> CHR ''0''"
  using hd_dropWhile [of "\<lambda>c. c = CHR ''0''" "rev s"]
  by (simp add: strip_zeros_def last_rev)

lemma strip_zeros_digits: "list_all is_digit s \<Longrightarrow> list_all is_digit (strip_zeros s)"
  by (auto simp: strip_zeros_def list_all_iff dest: set_dropWhileD)

lemma strip_zeros_after_dot:
  "strip_zeros (ip @ CHR ''.'' # fp) = ip @ CHR ''.'' # strip_zeros fp"
  by (simp add: strip_zeros_def dropWhile_append3)

lemma trim_no_dot: "CHR ''.'' \<notin> set s \<Longrightarrow> trim s = s"
  by (simp add: trim_def)

lemma trim_fraction:
  assumes "list_all is_digit fp"
  shows "trim (ip @ CHR ''.'' # fp) =
           (if strip_zeros fp = [] then ip else ip @ CHR ''.'' # strip_zeros fp)"
proof (cases "strip_zeros fp = []")
  case True
  then show ?thesis
    by (simp add: trim_def strip_zeros_after_dot Let_def butlast_append)
next
  case False
  from assms have "list_all is_digit (strip_zeros fp)"
    by (rule strip_zeros_digits)
  then have "CHR ''.'' \<notin> set (strip_zeros fp)"
    by (rule digits_no_dot)
  with False have "last (strip_zeros fp) \<noteq> CHR ''.''"
    using last_in_set [of "strip_zeros fp"] by metis
  with False show ?thesis
    by (simp add: trim_def strip_zeros_after_dot Let_def)
qed


text \<open>Both expressions match only a text of zeros, with a dot before them or not.\<close>

lemma re1_last: "re1 a b \<Longrightarrow> last b = CHR ''0''"
  by (auto simp: re1_def zeros_last zeros_def split: list.splits)

lemma re2_last: "re2 a b \<Longrightarrow> last b = CHR ''0''"
  by (auto simp: re2_def zeros_last zeros_def split: list.splits)

lemma re1_shape: "re1 a b \<Longrightarrow> hd b = CHR ''.'' \<or> list_all (\<lambda>c. c = CHR ''0'') b"
  by (auto simp: re1_def zeros_def split: list.splits)

lemma replace1_unchanged:
  assumes "last s \<noteq> CHR ''0''"
  shows "replace_suffix re1 [] s = s"
proof -
  have "replace_suffix re1 [] s = [] @ s"
  proof (rule replace_suffix_none)
    fix a b
    assume "s = a @ b" and "b \<noteq> []"
    with assms have "last b \<noteq> CHR ''0''"
      by simp
    then show "\<not> re1 ([] @ a) b"
      using re1_last [of a b] by auto
  qed
  then show ?thesis by simp
qed

lemma replace2_unchanged:
  assumes "last s \<noteq> CHR ''0''"
  shows "replace_suffix re2 [] s = s"
proof -
  have "replace_suffix re2 [] s = [] @ s"
  proof (rule replace_suffix_none)
    fix a b
    assume "s = a @ b" and "b \<noteq> []"
    with assms have "last b \<noteq> CHR ''0''"
      by simp
    then show "\<not> re2 ([] @ a) b"
      using re2_last [of a b] by auto
  qed
  then show ?thesis by simp
qed

lemma nonzero_digit: "is_digit c \<Longrightarrow> c \<noteq> CHR ''0'' \<Longrightarrow> c \<in> set ''123456789''"
  by (auto simp: is_digit_def)

lemma lookbehind_fraction:
  assumes "list_all is_digit f" and "f \<noteq> []" and "last f \<noteq> CHR ''0''"
  shows "lookbehind (ip @ CHR ''.'' # f)"
proof -
  from assms(2) have f: "f = butlast f @ [last f]"
    by simp
  from assms(1) have d: "is_digit (last f)" "\<forall>c \<in> set (rev (butlast f)). is_digit c"
    using assms(2) last_in_set [of f] in_set_butlastD [of _ f] by (auto simp: list_all_iff)
  have r: "rev (ip @ CHR ''.'' # f) = last f # (rev (butlast f) @ CHR ''.'' # rev ip)"
    by (subst f) simp
  have dw: "dropWhile is_digit (rev (butlast f) @ CHR ''.'' # rev ip) = CHR ''.'' # rev ip"
    using d(2) dot_no_digit by (simp add: dropWhile_append3)
  have "last f \<in> set ''123456789''"
    by (rule nonzero_digit [OF d(1) assms(3)])
  then show ?thesis
    unfolding lookbehind_def r by (simp only: list.case dw)
qed

text \<open>
  The first replacement, on digits, a dot and at least one digit: it strips the
  trailing zeros of the fraction, and the dot with them when nothing else is left.
\<close>

lemma replace1_fraction:
  assumes ip: "list_all is_digit ip" and fp: "list_all is_digit fp" and ne: "fp \<noteq> []"
  shows "replace_suffix re1 [] (ip @ CHR ''.'' # fp) = trim (ip @ CHR ''.'' # fp)"
proof -
  define f where "f = strip_zeros fp"
  from strip_zeros_decomp [of fp] obtain k where k: "fp = f @ replicate k CHR ''0''"
    unfolding f_def by blast
  have fd: "list_all is_digit f"
    unfolding f_def using fp by (rule strip_zeros_digits)
  have tr: "trim (ip @ CHR ''.'' # fp) = (if f = [] then ip else ip @ CHR ''.'' # f)"
    unfolding f_def using fp by (rule trim_fraction)
  show ?thesis
  proof (cases "f = []")
    case True
    with k ne have k0: "0 < k" and fpz: "fp = replicate k CHR ''0''"
      by auto
    have "replace_suffix re1 [] (ip @ CHR ''.'' # fp) = [] @ ip"
    proof (rule replace_suffix_first)
      show "re1 ([] @ ip) (CHR ''.'' # fp)"
        using k0 by (simp add: re1_def fpz zeros_replicate)
      show "CHR ''.'' # fp \<noteq> []"
        by simp
      fix a1 a2
      assume a: "ip = a1 @ a2" and a2: "a2 \<noteq> []"
      show "\<not> re1 ([] @ a1) (a2 @ CHR ''.'' # fp)"
      proof
        assume "re1 ([] @ a1) (a2 @ CHR ''.'' # fp)"
        from re1_shape [OF this] a2
        have "hd a2 = CHR ''.'' \<or> list_all (\<lambda>c. c = CHR ''0'') (a2 @ CHR ''.'' # fp)"
          by simp
        moreover have "hd a2 \<noteq> CHR ''.''"
        proof -
          from a2 have "hd a2 \<in> set a2"
            by (rule hd_in_set)
          with a have "hd a2 \<in> set ip"
            by simp
          with digits_no_dot [OF ip] show ?thesis
            by metis
        qed
        ultimately show False
          by simp
      qed
    qed
    with True tr show ?thesis by simp
  next
    case False
    have lf: "last f \<noteq> CHR ''0''"
      using False strip_zeros_last [of fp] by (simp add: f_def)
    show ?thesis
    proof (cases "k = 0")
      case True
      with k have "fp = f" by simp
      with False lf have "last (ip @ CHR ''.'' # fp) \<noteq> CHR ''0''"
        by simp
      from replace1_unchanged [OF this] tr False \<open>fp = f\<close> show ?thesis
        by simp
    next
      case k0: False
      have "replace_suffix re1 [] ((ip @ CHR ''.'' # f) @ replicate k CHR ''0'') =
              [] @ (ip @ CHR ''.'' # f)"
      proof (rule replace_suffix_first)
        show "re1 ([] @ ip @ CHR ''.'' # f) (replicate k CHR ''0'')"
          using k0 lookbehind_fraction [OF fd False lf, of ip]
          by (simp add: re1_def zeros_replicate)
        show "replicate k CHR ''0'' \<noteq> []"
          using k0 by simp
        fix a1 a2
        assume a: "ip @ CHR ''.'' # f = a1 @ a2" and a2: "a2 \<noteq> []"
        show "\<not> re1 ([] @ a1) (a2 @ replicate k CHR ''0'')"
        proof
          assume "re1 ([] @ a1) (a2 @ replicate k CHR ''0'')"
          from re1_shape [OF this] a2
          have sh: "hd a2 = CHR ''.'' \<or> list_all (\<lambda>c. c = CHR ''0'') a2"
            by auto
          have "last (ip @ CHR ''.'' # f) = last (a1 @ a2)"
            by (simp only: a)
          with a2 False have la: "last a2 = last f"
            by simp
          show False
          proof (cases "list_all (\<lambda>c. c = CHR ''0'') a2")
            case True
            with a2 have "last a2 = CHR ''0''"
              using last_in_set [of a2] by (auto simp: list_all_iff)
            with la lf show False by simp
          next
            case nz: False
            with sh have h: "hd a2 = CHR ''.''"
              by simp
            from a a2 h have "a2 = CHR ''.'' # f"
            proof -
              from a2 h obtain r where r: "a2 = CHR ''.'' # r"
                by (cases a2) auto
              with a have "ip @ CHR ''.'' # f = a1 @ CHR ''.'' # r"
                by simp
              moreover have "CHR ''.'' \<notin> set ip" "CHR ''.'' \<notin> set f"
                using ip fd by (auto dest: digits_no_dot)
              ultimately have "f = r"
                by (simp add: append_Cons_eq_iff)
              with r show ?thesis by simp
            qed
            with \<open>re1 ([] @ a1) (a2 @ replicate k CHR ''0'')\<close>
            have "re1 a1 (CHR ''.'' # f @ replicate k CHR ''0'')"
              by simp
            then have "zeros (f @ replicate k CHR ''0'') \<or> zeros (CHR ''.'' # f @ replicate k CHR ''0'')"
              by (auto simp: re1_def)
            then have "list_all (\<lambda>c. c = CHR ''0'') f"
              by (auto simp: zeros_def)
            with False have "last f = CHR ''0''"
              using last_in_set [of f] by (auto simp: list_all_iff)
            with lf show False by simp
          qed
        qed
      qed
      with k tr False show ?thesis
        by simp
    qed
  qed
qed

text \<open>
  The two replacements together, on a rendering in fixed notation: whenever its
  trimmed form does not end in \<^verbatim>\<open>0\<close>, they give the trimmed form.
\<close>

lemma replace_both_fixed:
  assumes "list_all is_digit ip" and "list_all is_digit fp"
    and "s = ip \<or> s = ip @ CHR ''.'' # fp \<and> fp \<noteq> []"
    and "last (trim s) \<noteq> CHR ''0''"
  shows "replace_suffix re2 [] (replace_suffix re1 [] s) = trim s"
proof -
  have "replace_suffix re1 [] s = trim s"
  proof (cases "s = ip")
    case True
    with assms(1) have t: "trim s = s"
      by (simp add: trim_no_dot digits_no_dot)
    with assms(4) show ?thesis
      by (simp add: replace1_unchanged)
  next
    case False
    with assms(3) have "s = ip @ CHR ''.'' # fp" "fp \<noteq> []"
      by simp_all
    with assms(1,2) show ?thesis
      by (simp add: replace1_fraction)
  qed
  with assms(4) show ?thesis
    by (simp add: replace2_unchanged)
qed

subsection \<open>Reading a rendering back\<close>

lemma digit_is_numch: "is_digit c \<Longrightarrow> is_numch c"
  by (simp add: is_numch_def)

lemma Number_integer:
  assumes "list_all is_digit ip" and "ip \<noteq> []"
  shows "Number H ip = rnd (dec_value ip [])"
proof -
  from assms(1) have nc: "list_all is_numch ip"
    by (auto simp: list_all_iff digit_is_numch)
  from assms(1) have tw: "takeWhile is_digit ip = ip" and dw: "dropWhile is_digit ip = []"
    by (auto simp: list_all_iff)
  from assms(2) show ?thesis
    by (simp add: Number_def nc tw dw)
qed

lemma Number_fraction:
  assumes ip: "list_all is_digit ip" and ne: "ip \<noteq> []" and fp: "list_all is_digit fp"
  shows "Number H (ip @ CHR ''.'' # fp) = rnd (dec_value ip fp)"
proof -
  from ip fp have nc: "list_all is_numch ip" "list_all is_numch fp" "is_numch CHR ''.''"
    by (auto simp: list_all_iff digit_is_numch is_numch_def)
  from ip have tw: "takeWhile is_digit (ip @ CHR ''.'' # fp) = ip"
    using dot_no_digit by (simp add: takeWhile_tail list_all_iff)
  from ip have dw: "dropWhile is_digit (ip @ CHR ''.'' # fp) = CHR ''.'' # fp"
    using dot_no_digit by (simp add: dropWhile_append3 list_all_iff)
  from ne fp show ?thesis
    by (simp add: Number_def nc tw dw)
qed

lemma dec_value_trailing_zeros:
  "dec_value ip (f @ replicate k CHR ''0'') = dec_value ip f"
proof -
  have "nat_of_digits (f @ replicate k CHR ''0'') = nat_of_digits f * 10 ^ k"
    by (simp add: nat_of_digits_append nat_of_digits_zeros)
  then show ?thesis
    by (simp add: dec_value_def power_add)
qed

text \<open>
  The trimmed form of digits, a dot and digits reads back as the same number as the
  untrimmed text.
\<close>

lemma Number_trim_fraction:
  assumes ip: "list_all is_digit ip" and ne: "ip \<noteq> []" and fp: "list_all is_digit fp"
  shows "Number H (trim (ip @ CHR ''.'' # fp)) = rnd (dec_value ip fp)"
proof -
  define f where "f = strip_zeros fp"
  from strip_zeros_decomp [of fp] obtain k where k: "fp = f @ replicate k CHR ''0''"
    unfolding f_def by blast
  have fd: "list_all is_digit f"
    unfolding f_def using fp by (rule strip_zeros_digits)
  have v: "dec_value ip fp = dec_value ip f"
    by (subst k) (rule dec_value_trailing_zeros)
  have tr: "trim (ip @ CHR ''.'' # fp) = (if f = [] then ip else ip @ CHR ''.'' # f)"
    unfolding f_def using fp by (rule trim_fraction)
  show ?thesis
  proof (cases "f = []")
    case True
    with tr v show ?thesis
      by (simp add: Number_integer [OF ip ne])
  next
    case False
    with tr v show ?thesis
      by (simp add: Number_fraction [OF ip ne fd])
  qed
qed

text \<open>
  The shape of a rendering in fixed notation, for twelve digits \<open>m\<close>: integer digits
  \<open>ip\<close> alone, or \<open>ip\<close>, a dot and fraction digits \<open>fp\<close>; its value is the number that
  \<open>m\<close> spells, scaled by \<open>10 ^ (e - 11)\<close>.
\<close>

lemma render_fixed:
  assumes m: "list_all is_digit m" and len: "length m = 12" and e: "- 6 \<le> e" "e < 12"
  shows "\<exists>ip fp. list_all is_digit ip \<and> ip \<noteq> [] \<and> list_all is_digit fp \<and>
           (render 12 m e = ip \<and> fp = [] \<or> render 12 m e = ip @ CHR ''.'' # fp \<and> fp \<noteq> []) \<and>
           dec_value ip fp = of_nat (nat_of_digits m) * ipow 10 (e - 11)"
proof -
  consider (whole) "e = 11" | (split) "0 \<le> e" "e < 11" | (small) "e < 0"
    using e by linarith
  then show ?thesis
  proof cases
    case whole
    from len have "m \<noteq> []"
      by auto
    moreover from whole have "render 12 m e = m"
      by (simp add: render_def)
    moreover from whole have "dec_value m [] = of_nat (nat_of_digits m) * ipow 10 (e - 11)"
      by (simp add: dec_value_def ipow_def nat_of_digits_def)
    ultimately show ?thesis
      using m by (intro exI [of _ m] exI [of _ "[]"]) simp
  next
    case split
    define j where "j = nat (e + 1)"
    define ip where "ip = take j m"
    define fp where "fp = drop j m"
    from split have j: "1 \<le> j" "j \<le> 11"
      by (simp_all add: j_def)
    with len have l: "length ip = j" "length fp = 12 - j"
      by (simp_all add: ip_def fp_def)
    from m have d: "list_all is_digit ip" "list_all is_digit fp"
      by (auto simp: ip_def fp_def list_all_iff dest: in_set_takeD in_set_dropD)
    from l j have n: "ip \<noteq> []" "fp \<noteq> []"
      by auto
    from split have r: "render 12 m e = ip @ CHR ''.'' # fp"
      by (simp add: render_def ip_def fp_def j_def)
    have "nat_of_digits m = nat_of_digits (ip @ fp)"
      by (simp add: ip_def fp_def)
    then have "nat_of_digits m = nat_of_digits ip * 10 ^ (12 - j) + nat_of_digits fp"
      by (simp add: nat_of_digits_append l)
    then have "dec_value ip fp = of_nat (nat_of_digits m) / 10 ^ (12 - j)"
      by (simp add: dec_value_def l add_divide_distrib)
    moreover from split have "nat (11 - e) = 12 - j"
      by (simp add: j_def)
    with split have "ipow 10 (e - 11) = 1 / 10 ^ (12 - j)"
      by (simp add: ipow_def)
    ultimately have "dec_value ip fp = of_nat (nat_of_digits m) * ipow 10 (e - 11)"
      by simp
    with d n r show ?thesis
      by (intro exI [of _ ip] exI [of _ fp]) simp
  next
    case small
    define k where "k = nat (- (e + 1))"
    define fp where "fp = replicate k CHR ''0'' @ m"
    have z: "is_digit CHR ''0''"
      by (simp add: is_digit_def)
    with m have d: "list_all is_digit ''0''" "list_all is_digit fp"
      by (auto simp: fp_def list_all_iff)
    from len have n: "fp \<noteq> []"
      by (auto simp: fp_def)
    from small e have r: "render 12 m e = ''0'' @ CHR ''.'' # fp"
      by (simp add: render_def fp_def k_def)
    have "nat_of_digits fp = nat_of_digits m"
      by (simp add: fp_def nat_of_digits_append nat_of_digits_zeros)
    moreover have "length fp = k + 12"
      by (simp add: fp_def len)
    ultimately have "dec_value ''0'' fp = of_nat (nat_of_digits m) / 10 ^ (k + 12)"
      by (simp add: dec_value_def nat_of_digits_def digit_val_def)
    moreover from small have "nat (11 - e) = k + 12"
      by (simp add: k_def)
    with small have "ipow 10 (e - 11) = 1 / 10 ^ (k + 12)"
      by (simp add: ipow_def)
    ultimately have "dec_value ''0'' fp = of_nat (nat_of_digits m) * ipow 10 (e - 11)"
      by simp
    with d n r show ?thesis
      by (intro exI [of _ "''0''"] exI [of _ fp]) simp
  qed
qed

subsection \<open>Formatting a result and reading it back\<close>

lemma trim_fixed:
  assumes ip: "list_all is_digit ip" and ne: "ip \<noteq> []" and fp: "list_all is_digit fp"
    and s: "s = ip \<and> fp = [] \<or> s = ip @ CHR ''.'' # fp \<and> fp \<noteq> []"
  shows "tokenize (trim s) = Inr [mk TNumber (trim s)]"
    and "Number H (trim s) = rnd (dec_value ip fp)"
    and "last (trim s) \<noteq> CHR ''.''"
proof -
  define f where "f = strip_zeros fp"
  have fd: "list_all is_digit f"
    unfolding f_def using fp by (rule strip_zeros_digits)
  have nodot: "CHR ''.'' \<notin> set ip" "CHR ''.'' \<notin> set f"
    using ip fd by (auto dest: digits_no_dot)
  have nc: "list_all is_numch ip" "list_all is_numch f" "is_numch CHR ''.''"
    using ip fd by (auto simp: list_all_iff digit_is_numch is_numch_def)
  have t: "trim s = ip \<or> trim s = ip @ CHR ''.'' # f \<and> f \<noteq> []"
  proof (cases "s = ip")
    case True
    with nodot show ?thesis
      by (simp add: trim_no_dot)
  next
    case False
    with s have "s = ip @ CHR ''.'' # fp"
      by simp
    with trim_fraction [OF fp, of ip] show ?thesis
      by (simp add: f_def)
  qed
  have fz: "filter (\<lambda>c. c = CHR ''.'') ip = []" "filter (\<lambda>c. c = CHR ''.'') f = []"
    using nodot by (auto simp: filter_empty_conv)
  from t have "trim s \<noteq> []" "list_all is_numch (trim s)"
    "length (filter (\<lambda>c. c = CHR ''.'') (trim s)) \<le> 1"
    using ne nc fz by auto
  then show "tokenize (trim s) = Inr [mk TNumber (trim s)]"
    by (rule tokenize_numeric_text)
  show "Number H (trim s) = rnd (dec_value ip fp)"
  proof (cases "s = ip \<and> fp = []")
    case True
    with nodot have "trim s = ip"
      by (simp add: trim_no_dot)
    with True show ?thesis
      by (simp add: Number_integer [OF ip ne])
  next
    case False
    with s have "s = ip @ CHR ''.'' # fp"
      by auto
    then show ?thesis
      by (simp add: Number_trim_fraction [OF ip ne fp])
  qed
  from t show "last (trim s) \<noteq> CHR ''.''"
  proof
    assume "trim s = ip"
    with ne nodot(1) show ?thesis
      using last_in_set [of ip] by metis
  next
    assume a: "trim s = ip @ CHR ''.'' # f \<and> f \<noteq> []"
    then have "last (trim s) = last f"
      by simp
    with a nodot(2) show ?thesis
      using last_in_set [of f] by metis
  qed
qed

lemma precision_digits_0: "precision_digits 12 0 = (m, e) \<Longrightarrow> trim (render 12 m e) = ''0''"
  by (auto simp: precision_digits_def render_def trim_def strip_zeros_def replicate_unfold)

lemma evaluate_third: "evaluate H ''1/3'' = Inr (Num (Fin (6004799503160661 / 2 ^ 54)))"
  by (simp add: parser_defs)

lemma precision_digits_third:
  "precision_digits 12 (6004799503160661 / 2 ^ 54) = (''333333333333'', - 1)"
  by (simp add: format_defs)

lemma format_third: "Calculator_format (Fin (6004799503160661 / 2 ^ 54)) = ''0.333333333333''"
  by (simp add: format_defs)

lemma evaluate_2_minus_5: "evaluate H ''2-5'' = Inr (Num (Fin (- 3)))"
  by (simp add: parser_defs)

lemma format_minus_3: "Calculator_format (Fin (- 3)) = ''-3''"
  by (simp add: format_defs)

lemma tokenize_minus_3: "tokenize ''-3'' = Inr [mk TOp ''-'', mk TNumber ''3'']"
  by (simp add: lex_defs)

lemma evaluate_minus_3: "evaluate H ''-3'' = Inl InvalidExpression"
  by (simp add: parser_defs)

lemma format_100: "Calculator_format (Fin 100) = ''1''"
  by (simp add: format_defs)

lemma trim_render_third: "trim (render 12 ''333333333333'' (- 1)) = ''0.333333333333''"
  by (simp add: render_def trim_def strip_zeros_def)

text \<open>
  C4, as the claim states it, holds of every finite result. The text \<^verbatim>\<open>2-5\<close> evaluates
  to -3, which is formatted as \<^verbatim>\<open>-3\<close>; the tokenizer reads that as the operator \<^verbatim>\<open>-\<close>
  and the number \<^verbatim>\<open>3\<close>, not as one number token, and evaluating it fails.
\<close>

theorem negative_result_is_no_number_token:
  "\<forall>H. evaluate H ''2-5'' = Inr (Num (Fin (- 3))) \<and>
       Calculator_format (Fin (- 3)) = ''-3'' \<and>
       tokenize ''-3'' = Inr [mk TOp ''-'', mk TNumber ''3''] \<and>
       evaluate H ''-3'' = Inl InvalidExpression"
  by (simp add: evaluate_2_minus_5 format_minus_3 tokenize_minus_3 evaluate_minus_3)

text \<open>
  C4, amended. Let \<open>q \<ge> 0\<close> be a finite number whose rendering with 12 significant
  digits is in fixed notation (the decimal exponent \<open>e\<close> is from -6 to 11) and, once
  trimmed of the trailing zeros of its fraction and of a bare decimal point, does
  not end in the digit 0. Then formatting \<open>q\<close> gives that trimmed rendering, which
  ends neither in 0 nor in a decimal point; the tokenizer reads it as one number
  token; and that token's value is the binary64 number nearest to \<open>n * 10 ^ (e - 11)\<close>,
  where \<open>n\<close> is the twelve-digit number of the rendering and \<open>n * 10 ^ (e - 11)\<close> is
  within half a unit of the twelfth digit of \<open>q\<close>. Evaluating \<^verbatim>\<open>1/3\<close> and formatting
  the result gives \<^verbatim>\<open>0.333333333333\<close>.
\<close>

theorem format_round_trip:
  assumes q: "0 \<le> q" and pd: "precision_digits 12 q = (m, e)"
    and e: "- 6 \<le> e" "e < 12"
    and nz: "last (trim (render 12 m e)) \<noteq> CHR ''0''"
  shows "toPrecision (Fin q) 12 = render 12 m e \<and>
         Calculator_format (Fin q) = trim (render 12 m e) \<and>
         last (Calculator_format (Fin q)) \<noteq> CHR ''0'' \<and>
         last (Calculator_format (Fin q)) \<noteq> CHR ''.'' \<and>
         tokenize (Calculator_format (Fin q)) = Inr [mk TNumber (Calculator_format (Fin q))] \<and>
         (\<exists>n. 10 ^ 11 \<le> n \<and> n < 10 ^ 12 \<and> m = digits_of n \<and>
            \<bar>of_nat n * ipow 10 (e - 11) - q\<bar> \<le> ipow 10 (e - 11) / 2 \<and>
            Number H (Calculator_format (Fin q)) = rnd (of_nat n * ipow 10 (e - 11))) \<and>
         evaluate H ''1/3'' = Inr (Num (Fin (6004799503160661 / 2 ^ 54))) \<and>
         Calculator_format (Fin (6004799503160661 / 2 ^ 54)) = ''0.333333333333''"
proof -
  have "q \<noteq> 0"
  proof
    assume "q = 0"
    with pd have "trim (render 12 m e) = ''0''"
      by (simp add: precision_digits_0)
    with nz show False by simp
  qed
  with q have qpos: "0 < q"
    by simp
  from precision_digits_12 [OF qpos pd] obtain n
    where n: "10 ^ 11 \<le> n" "n < 10 ^ 12" and m: "m = digits_of n"
      and close: "\<bar>of_nat n * ipow 10 (e - 11) - q\<bar> \<le> ipow 10 (e - 11) / 2"
    by blast
  have md: "list_all is_digit m"
    unfolding m by (rule digits_of_digits)
  have "length (digits_of n) = Suc 11"
    using n by (intro length_digits_of) simp_all
  then have len: "length m = 12"
    by (simp add: m)
  have val: "nat_of_digits m = n"
    unfolding m by (rule nat_of_digits_digits_of)
  from render_fixed [OF md len e] obtain ip fp
    where ip: "list_all is_digit ip" "ip \<noteq> []" and fp: "list_all is_digit fp"
      and shape: "render 12 m e = ip \<and> fp = [] \<or> render 12 m e = ip @ CHR ''.'' # fp \<and> fp \<noteq> []"
      and dv: "dec_value ip fp = of_nat (nat_of_digits m) * ipow 10 (e - 11)"
    by blast
  from shape have shape': "render 12 m e = ip \<or> render 12 m e = ip @ CHR ''.'' # fp \<and> fp \<noteq> []"
    by blast
  from q pd have tp: "toPrecision (Fin q) 12 = render 12 m e"
    by simp
  have pf: "parseFloat_String (Fin q) = Fin q"
    by (simp add: parseFloat_String_def)
  have "Calculator_format (Fin q) =
      replace_suffix re2 [] (replace_suffix re1 [] (render 12 m e))"
    by (simp only: Calculator_format_def pf tp Let_def)
  also have "\<dots> = trim (render 12 m e)"
    using ip(1) fp shape' nz by (rule replace_both_fixed)
  finally have fmt: "Calculator_format (Fin q) = trim (render 12 m e)" .
  note tf = trim_fixed [OF ip fp shape]
  have tok: "tokenize (Calculator_format (Fin q)) = Inr [mk TNumber (Calculator_format (Fin q))]"
    unfolding fmt by (rule tf(1))
  have num: "Number H (Calculator_format (Fin q)) = rnd (of_nat n * ipow 10 (e - 11))"
    unfolding fmt using tf(2) [of H] by (simp add: dv val)
  have l0: "last (Calculator_format (Fin q)) \<noteq> CHR ''0''"
    unfolding fmt by (rule nz)
  have ld: "last (Calculator_format (Fin q)) \<noteq> CHR ''.''"
    unfolding fmt by (rule tf(3))
  from n m close num
  have ex: "\<exists>n. 10 ^ 11 \<le> n \<and> n < 10 ^ 12 \<and> m = digits_of n \<and>
            \<bar>of_nat n * ipow 10 (e - 11) - q\<bar> \<le> ipow 10 (e - 11) / 2 \<and>
            Number H (Calculator_format (Fin q)) = rnd (of_nat n * ipow 10 (e - 11))"
    by blast
  show ?thesis
    by (intro conjI) (rule tp fmt l0 ld tok ex evaluate_third format_third)+
qed

theorem format_round_trip_witness:
  "\<forall>H. Calculator_format (Fin (6004799503160661 / 2 ^ 54)) = ''0.333333333333'' \<and>
       tokenize ''0.333333333333'' = Inr [mk TNumber ''0.333333333333''] \<and>
       Number H ''0.333333333333'' = rnd (333333333333 / 10 ^ 12)"
proof
  fix H :: host
  let ?q = "6004799503160661 / 2 ^ 54 :: rat"
  have q: "0 \<le> ?q"
    by simp
  have e: "- 6 \<le> (- 1 :: int)" "(- 1 :: int) < 12"
    by simp_all
  have nz: "last (trim (render 12 ''333333333333'' (- 1))) \<noteq> CHR ''0''"
    by (simp add: trim_render_third)
  note T = format_round_trip [OF q precision_digits_third e nz, of H]
  from T have "Calculator_format (Fin ?q) = trim (render 12 ''333333333333'' (- 1))"
    by (elim conjE)
  then have f: "Calculator_format (Fin ?q) = ''0.333333333333''"
    by (simp only: trim_render_third)
  from T have "tokenize (Calculator_format (Fin ?q)) =
      Inr [mk TNumber (Calculator_format (Fin ?q))]"
    by (elim conjE)
  then have t: "tokenize ''0.333333333333'' = Inr [mk TNumber ''0.333333333333'']"
    by (simp only: f)
  from T obtain n where n: "''333333333333'' = digits_of n"
    and v: "Number H (Calculator_format (Fin ?q)) = rnd (of_nat n * ipow 10 (- 1 - 11))"
    by blast
  from n have "nat_of_digits ''333333333333'' = n"
    by (simp only: nat_of_digits_digits_of)
  then have "n = 333333333333"
    by (simp add: nat_of_digits_def digit_val_def)
  with v f have "Number H ''0.333333333333'' = rnd (333333333333 / 10 ^ 12)"
    by (simp add: ipow_def)
  with f t show "Calculator_format (Fin ?q) = ''0.333333333333'' \<and>
       tokenize ''0.333333333333'' = Inr [mk TNumber ''0.333333333333''] \<and>
       Number H ''0.333333333333'' = rnd (333333333333 / 10 ^ 12)"
    by (intro conjI)
qed

end
